theory Spec2Isabelle
  imports Complex_Main "HOL-Library.Signed_Division"
begin

section \<open>The Klein-Kramers solver: data model\<close>

text \<open>
  The development embeds \<^verbatim>\<open>KleinKramers2d::Evolve\<close> and its helpers
  (\<^verbatim>\<open>src/PhysicalKinetics/SmoluchowskiLimit/KleinKramers2d.cpp\<close>).

  Conventions of the embedding.
  \<^item> A \<^verbatim>\<open>double\<close> is a real number: the rounding and the overflow of the
    arithmetic operations are not modelled. Where the source itself tests for a non-finite
    value (\<^verbatim>\<open>isnan\<close>, \<^verbatim>\<open>isinf\<close>, \<^verbatim>\<open>isfinite\<close>) the value is a
    \<open>real option\<close>, and \<open>None\<close> is the non-finite result (a Maxwellian whose variance
    is not positive).
  \<^item> The candidate of the geometric extrapolation, \<^verbatim>\<open>exp(2.0 * std::log(f1) - std::log(f2))\<close>,
    is compared with the values it is computed from, and a candidate that is NaN or
    infinite is discarded: there the library functions are not replaced by the real
    logarithm and exponential. \<^verbatim>\<open>std::log\<close> and \<^verbatim>\<open>exp\<close> on doubles are the
    fields \<open>std_log\<close> and \<open>std_exp\<close> of the configuration, with the result \<open>None\<close>
    where the library returns NaN or an infinity; nothing is assumed about them.
  \<^item> An \<^verbatim>\<open>int\<close> is an unbounded integer; \<^verbatim>\<open>/\<close> and \<^verbatim>\<open>%\<close> on
    \<^verbatim>\<open>int\<close> truncate towards zero (\<open>sdiv\<close>, \<open>smod\<close>).
  \<^item> The heap arrays (\<^verbatim>\<open>F\<close>, \<^verbatim>\<open>FF\<close>, \<^verbatim>\<open>PF\<close>, \<^verbatim>\<open>Feq_loc\<close>,
    \<^verbatim>\<open>KK1\<close> .. \<^verbatim>\<open>KK4\<close>, \<^verbatim>\<open>Density\<close>, \<^verbatim>\<open>Velocity\<close>,
    \<^verbatim>\<open>Temperature\<close>, \<^verbatim>\<open>TAMask\<close>) form a store: a map from the array's name and a
    linear index to the value held there.
  \<^item> The members read from the parameter file are a record \<open>config\<close>; the potential
    selected at compile time (\<^verbatim>\<open>POTENTIAL_X\<close>, \<^verbatim>\<open>WAVEFUNCTION\<close>) is a field of it.
  \<^item> An OpenMP loop is the sequential loop over the same iteration space, in index order;
    file output, logging and timing are left out.
\<close>

record config =
  EDGE :: int
  BoxShape0 :: int
  BoxShape1 :: int
  Box0 :: real
  Box2 :: real
  H0 :: real
  H1 :: real
  kk :: real
  mass :: real
  kb :: real
  temp :: real
  gamma :: real
  TolH :: real
  TolL :: real
  TolHd :: real
  TolLd :: real
  ExReduce :: real
  ExLimit :: int
  isFullGrid :: bool
  isIsothermal :: bool
  isLinearizedCollision :: bool
  POTENTIAL_X :: "real \<Rightarrow> real \<Rightarrow> real"
  WAVEFUNCTION :: "real \<Rightarrow> real \<Rightarrow> real"
  std_log :: "real \<Rightarrow> real option"
  std_exp :: "real \<Rightarrow> real option"

text \<open>\<^verbatim>\<open>M1 = BoxShape[1]; W1 = BoxShape[1];\<close> (the field \<open>mass\<close> is the member \<^verbatim>\<open>m\<close>).\<close>

definition W1 :: "config \<Rightarrow> int" where
  "W1 cfg = BoxShape1 cfg"

definition M1 :: "config \<Rightarrow> int" where
  "M1 cfg = BoxShape1 cfg"

definition BIG_NUMBER :: int where
  "BIG_NUMBER = 2147483647"

text \<open>The constants computed at the head of \<^verbatim>\<open>Evolve\<close>.\<close>

definition k2h0m :: "config \<Rightarrow> real" where
  "k2h0m cfg = kk cfg / (2 * H0 cfg * mass cfg)"

definition k2h1 :: "config \<Rightarrow> real" where
  "k2h1 cfg = kk cfg / (2 * H1 cfg)"

definition kgamma :: "config \<Rightarrow> real" where
  "kgamma cfg = kk cfg * gamma cfg"

definition TolHd_sq :: "config \<Rightarrow> real" where
  "TolHd_sq cfg = TolHd cfg * TolHd cfg"

definition TolLd_sq :: "config \<Rightarrow> real" where
  "TolLd_sq cfg = TolLd cfg * TolLd cfg"

text \<open>\<^verbatim>\<open>GridToIdx\<close> and the two halves of \<^verbatim>\<open>IdxToGrid\<close> (written inline in
  \<^verbatim>\<open>Evolve\<close> as \<^verbatim>\<open>i1*W1+i2\<close>, \<^verbatim>\<open>(int)(idx / M1)\<close>, \<^verbatim>\<open>(int)(idx % M1)\<close>).\<close>

definition GridToIdx :: "config \<Rightarrow> int \<Rightarrow> int \<Rightarrow> int" where
  "GridToIdx cfg x1 x2 = x1 * W1 cfg + x2"

definition idx :: "config \<Rightarrow> int \<times> int \<Rightarrow> int" where
  "idx cfg c = GridToIdx cfg (fst c) (snd c)"

definition IdxToGrid :: "config \<Rightarrow> int \<Rightarrow> int \<times> int" where
  "IdxToGrid cfg k = (k sdiv M1 cfg, k smod M1 cfg)"

text \<open>Physical coordinates \<^verbatim>\<open>Box[0]+i1*H[0]\<close> and \<^verbatim>\<open>Box[2]+i2*H[1]\<close>.\<close>

definition xx1_of :: "config \<Rightarrow> int \<Rightarrow> real" where
  "xx1_of cfg i1 = Box0 cfg + real_of_int i1 * H0 cfg"

definition xx2_of :: "config \<Rightarrow> int \<Rightarrow> real" where
  "xx2_of cfg i2 = Box2 cfg + real_of_int i2 * H1 cfg"

datatype buffer = F | Feq_loc | FF | PF | KK1 | KK2 | KK3 | KK4 | Density | Velocity | Temperature

type_synonym store = "buffer \<Rightarrow> int \<Rightarrow> real"

definition put :: "store \<Rightarrow> buffer \<Rightarrow> int \<Rightarrow> real \<Rightarrow> store" where
  "put st b k v = st(b := (st b)(k := v))"

text \<open>Iteration spaces: the rectangle \<^verbatim>\<open>for i1 = a..b, for i2 = c..d\<close> (bounds
  inclusive) in loop order, and the edge-free interior
  \<^verbatim>\<open>[EDGE, BoxShape[0]-EDGE) x [EDGE, BoxShape[1]-EDGE)\<close>.\<close>

definition box_cells :: "int \<Rightarrow> int \<Rightarrow> int \<Rightarrow> int \<Rightarrow> (int \<times> int) list" where
  "box_cells a b c d = List.product [a..b] [c..d]"

definition interior_cells :: "config \<Rightarrow> (int \<times> int) list" where
  "interior_cells cfg =
     box_cells (EDGE cfg) (BoxShape0 cfg - EDGE cfg - 1) (EDGE cfg) (BoxShape1 cfg - EDGE cfg - 1)"

section \<open>The Runge-Kutta stages\<close>

text \<open>The body of the \<^verbatim>\<open>RK4-1\<close> loop at one cell: the stage value, stored in
  \<^verbatim>\<open>KK1\<close>, and \<^verbatim>\<open>FF = F + KK1 / 6.0\<close>.\<close>

definition KK1_val :: "config \<Rightarrow> store \<Rightarrow> int \<times> int \<Rightarrow> real" where
  "KK1_val cfg st c =
     (let i1 = fst c; i2 = snd c;
          xx1 = xx1_of cfg i1;
          xx2 = xx2_of cfg i2;
          f0 = st F (GridToIdx cfg i1 i2);
          f1p = st F (GridToIdx cfg (i1 + 1) i2);
          f1m = st F (GridToIdx cfg (i1 - 1) i2);
          f2p = st F (GridToIdx cfg i1 (i2 + 1));
          f2m = st F (GridToIdx cfg i1 (i2 - 1));
          feq = st Feq_loc (GridToIdx cfg i1 i2)
      in - k2h0m cfg * xx2 * (f1p - f1m)
         + k2h1 cfg * POTENTIAL_X cfg xx1 xx2 * (f2p - f2m)
         + kgamma cfg * (feq - f0))"

definition rk4_1_cell :: "config \<Rightarrow> int \<times> int \<Rightarrow> store \<Rightarrow> store" where
  "rk4_1_cell cfg c st =
     (let k = idx cfg c;
          st1 = put st KK1 k (KK1_val cfg st c)
      in put st1 FF k (st1 F k + st1 KK1 k / 6))"

text \<open>The body of the loops \<^verbatim>\<open>RK4-2\<close>, \<^verbatim>\<open>RK4-3\<close> and \<^verbatim>\<open>RK4-4\<close> at one
  cell. The three loops differ in the buffer \<open>src\<close> of the previous stage, the buffer
  \<open>dst\<close> written, the weight \<open>a\<close> of the previous stage (\<^verbatim>\<open>0.5\<close>, \<^verbatim>\<open>0.5\<close>,
  \<^verbatim>\<open>1.0\<close>) and the divisor \<open>w\<close> of \<^verbatim>\<open>FF += KKn / w\<close> (\<^verbatim>\<open>3.0\<close>,
  \<^verbatim>\<open>3.0\<close>, \<^verbatim>\<open>6.0\<close>).\<close>

definition KKn_val :: "config \<Rightarrow> buffer \<Rightarrow> real \<Rightarrow> store \<Rightarrow> int \<times> int \<Rightarrow> real" where
  "KKn_val cfg src a st c =
     (let i1 = fst c; i2 = snd c;
          xx1 = xx1_of cfg i1;
          xx2 = xx2_of cfg i2;
          f0 = st F (GridToIdx cfg i1 i2);
          f1p = st F (GridToIdx cfg (i1 + 1) i2);
          f1m = st F (GridToIdx cfg (i1 - 1) i2);
          f2p = st F (GridToIdx cfg i1 (i2 + 1));
          f2m = st F (GridToIdx cfg i1 (i2 - 1));
          kk0 = st src (GridToIdx cfg i1 i2);
          kk1p = st src (GridToIdx cfg (i1 + 1) i2);
          kk1m = st src (GridToIdx cfg (i1 - 1) i2);
          kk2p = st src (GridToIdx cfg i1 (i2 + 1));
          kk2m = st src (GridToIdx cfg i1 (i2 - 1));
          feq = st Feq_loc (GridToIdx cfg i1 i2)
      in - k2h0m cfg * xx2 * (f1p + a * kk1p - f1m - a * kk1m)
         + k2h1 cfg * POTENTIAL_X cfg xx1 xx2 * (f2p + a * kk2p - f2m - a * kk2m)
         + kgamma cfg * (feq - f0 - a * kk0))"

definition rk4_n_cell ::
  "config \<Rightarrow> buffer \<Rightarrow> buffer \<Rightarrow> real \<Rightarrow> real \<Rightarrow> int \<times> int \<Rightarrow> store \<Rightarrow> store" where
  "rk4_n_cell cfg src dst a w c st =
     (let k = idx cfg c;
          st1 = put st dst k (KKn_val cfg src a st c)
      in put st1 FF k (st1 FF k + st1 dst k / w))"

text \<open>The four loops in sequence over one iteration space \<open>cs\<close>. The source writes
  this block three times: over the live cells of the bounding box, over the decoded
  entries of \<^verbatim>\<open>ExBD\<close>, and over the edge-free interior.\<close>

definition rk4 :: "config \<Rightarrow> (int \<times> int) list \<Rightarrow> store \<Rightarrow> store" where
  "rk4 cfg cs st =
     (let st1 = fold (rk4_1_cell cfg) cs st;
          st2 = fold (rk4_n_cell cfg KK1 KK2 (1/2) 3) cs st1;
          st3 = fold (rk4_n_cell cfg KK2 KK3 (1/2) 3) cs st2
      in fold (rk4_n_cell cfg KK3 KK4 1 6) cs st3)"

section \<open>Moments and the local Maxwellian\<close>

text \<open>The three accumulation loops of one x-row over the columns \<open>js\<close>: the live
  columns of the bounding box in truncated mode, all columns in full-grid mode.\<close>

definition row_density :: "config \<Rightarrow> store \<Rightarrow> int \<Rightarrow> int list \<Rightarrow> real" where
  "row_density cfg st i1 js =
     fold (\<lambda>i2 density. density + st F (GridToIdx cfg i1 i2) * H1 cfg) js 0"

definition row_velocity :: "config \<Rightarrow> store \<Rightarrow> int \<Rightarrow> int list \<Rightarrow> real" where
  "row_velocity cfg st i1 js =
     fold (\<lambda>i2 velocity_dft. velocity_dft + xx2_of cfg i2 * st F (GridToIdx cfg i1 i2) * H1 cfg) js 0"

definition row_temp :: "config \<Rightarrow> store \<Rightarrow> int \<Rightarrow> real \<Rightarrow> int list \<Rightarrow> real" where
  "row_temp cfg st i1 velocity_dft js =
     fold (\<lambda>i2 temp_loc.
            temp_loc + (xx2_of cfg i2 - mass cfg * velocity_dft)\<^sup>2 * st F (GridToIdx cfg i1 i2) * H1 cfg)
          js 0"

text \<open>The row's \<^verbatim>\<open>(density, velocity_dft, temp_loc)\<close>, with the source's order of
  the collision modes: linearized, isothermal, full.\<close>

definition moments_row :: "config \<Rightarrow> store \<Rightarrow> int \<Rightarrow> int list \<Rightarrow> real \<times> real \<times> real" where
  "moments_row cfg st i1 js =
     (let density = row_density cfg st i1 js in
      if density \<le> 0 then (0, 0, 0)
      else if isLinearizedCollision cfg then (density, 0, temp cfg)
      else if isIsothermal cfg then
        (density, row_velocity cfg st i1 js / (mass cfg * density), temp cfg)
      else
        (let velocity_dft = row_velocity cfg st i1 js / (mass cfg * density)
         in (density, velocity_dft,
             row_temp cfg st i1 velocity_dft js / (mass cfg * kb cfg * density))))"

definition live_cols :: "config \<Rightarrow> (int \<Rightarrow> bool) \<Rightarrow> int \<Rightarrow> int \<Rightarrow> int \<Rightarrow> int list" where
  "live_cols cfg msk a b i1 = filter (\<lambda>i2. msk (GridToIdx cfg i1 i2)) [a..b]"

definition put_moments :: "int \<Rightarrow> real \<times> real \<times> real \<Rightarrow> store \<Rightarrow> store" where
  "put_moments i1 mo st =
     put (put (put st Density i1 (fst mo)) Velocity i1 (fst (snd mo))) Temperature i1 (snd (snd mo))"

text \<open>The moment loops that run once before the time iteration (no \<^verbatim>\<open>Feq_loc\<close> is
  written there).\<close>

definition moments_trunc :: "config \<Rightarrow> (int \<Rightarrow> bool) \<Rightarrow> int \<Rightarrow> int \<Rightarrow> int \<Rightarrow> int \<Rightarrow> store \<Rightarrow> store" where
  "moments_trunc cfg msk a b c d st =
     fold (\<lambda>i1 st. put_moments i1 (moments_row cfg st i1 (live_cols cfg msk c d i1)) st) [a..b] st"

definition moments_full :: "config \<Rightarrow> store \<Rightarrow> store" where
  "moments_full cfg st =
     fold (\<lambda>i1 st. put_moments i1 (moments_row cfg st i1 [0..BoxShape1 cfg - 1]) st)
          [0..BoxShape0 cfg - 1] st"

text \<open>The local Maxwellian
  \<^verbatim>\<open>density * sqrt(1/(2*PI*m*kb*T)) * exp(-pow(p - m*u, 2)/(2*m*kb*T))\<close>.
  With \<^verbatim>\<open>2*PI*m*kb*T\<close> zero or negative the IEEE result is not finite (a square root
  of a negative number, or infinity times zero): \<open>None\<close>. The linearized branch of the
  source writes \<^verbatim>\<open>pow(p, 2)\<close>; its drift velocity is \<open>0\<close>.\<close>

definition feq_val :: "config \<Rightarrow> real \<Rightarrow> real \<Rightarrow> real \<Rightarrow> int \<Rightarrow> real option" where
  "feq_val cfg density velocity_dft temp_loc i2 =
     (if 2 * pi * mass cfg * kb cfg * temp_loc \<le> 0 then None
      else Some (density * sqrt (1 / (2 * pi * mass cfg * kb cfg * temp_loc))
                 * exp (- ((xx2_of cfg i2 - mass cfg * velocity_dft)\<^sup>2)
                        / (2 * mass cfg * kb cfg * temp_loc))))"

text \<open>\<^verbatim>\<open>(feq > 1/(H[0]*H[1]) || !isfinite(feq)) ? 0 : feq\<close>\<close>

definition sanitize :: "config \<Rightarrow> real option \<Rightarrow> real" where
  "sanitize cfg feq =
     (case feq of None \<Rightarrow> 0 | Some v \<Rightarrow> if v > 1 / (H0 cfg * H1 cfg) then 0 else v)"

text \<open>One row of the moment update inside the time iteration: the moments, then
  \<^verbatim>\<open>Feq_loc\<close> on the row's columns (zero on a row whose density is not positive).\<close>

definition feq_cell :: "config \<Rightarrow> real \<times> real \<times> real \<Rightarrow> int \<Rightarrow> real" where
  "feq_cell cfg mo i2 =
     (if fst mo \<le> 0 then 0
      else sanitize cfg (feq_val cfg (fst mo) (fst (snd mo)) (snd (snd mo)) i2))"

definition moments_feq_row :: "config \<Rightarrow> int list \<Rightarrow> int \<Rightarrow> store \<Rightarrow> store" where
  "moments_feq_row cfg js i1 st =
     (let mo = moments_row cfg st i1 js;
          st1 = fold (\<lambda>i2 st. put st Feq_loc (GridToIdx cfg i1 i2) (feq_cell cfg mo i2)) js st
      in put_moments i1 mo st1)"

definition moments_feq_trunc ::
  "config \<Rightarrow> (int \<Rightarrow> bool) \<Rightarrow> int \<Rightarrow> int \<Rightarrow> int \<Rightarrow> int \<Rightarrow> store \<Rightarrow> store" where
  "moments_feq_trunc cfg msk a b c d st =
     fold (\<lambda>i1 st. moments_feq_row cfg (live_cols cfg msk c d i1) i1 st) [a..b] st"

definition moments_feq_full :: "config \<Rightarrow> store \<Rightarrow> store" where
  "moments_feq_full cfg st =
     fold (\<lambda>i1 st. moments_feq_row cfg [0..BoxShape1 cfg - 1] i1 st) [0..BoxShape0 cfg - 1] st"

text \<open>The Maxwellian refresh over \<^verbatim>\<open>ExBD\<close> in the later passes of the extrapolation
  loop: it reads the stored row moments.\<close>

definition feq_ExBD_cell :: "config \<Rightarrow> int \<Rightarrow> store \<Rightarrow> store" where
  "feq_ExBD_cell cfg k st =
     (let g1 = k sdiv M1 cfg;
          g2 = k smod M1 cfg;
          density = st Density g1
      in if density > 0 then
           put st Feq_loc (GridToIdx cfg g1 g2)
             (sanitize cfg (feq_val cfg density (st Velocity g1) (st Temperature g1) g2))
         else put st Feq_loc (GridToIdx cfg g1 g2) 0)"

definition feq_ExBD :: "config \<Rightarrow> int list \<Rightarrow> store \<Rightarrow> store" where
  "feq_ExBD cfg ks st = fold (feq_ExBD_cell cfg) ks st"

section \<open>The state of the time iteration\<close>

record state =
  mem :: store
  TAMask :: "int \<Rightarrow> bool"
  TB :: "int list"
  TBL :: "int list"
  TBL_P :: "int list"
  ExFF :: "int list"
  ExBD :: "int list"
  Check :: "bool list"
  ExTBL :: "real list"
  x1_min :: int
  x1_max :: int
  x2_min :: int
  x2_max :: int
  ta_size :: int
  Excount :: int
  isExtrapolate :: bool
  isFirstExtrp :: bool

text \<open>What the model does not follow: a read outside an array (\<^verbatim>\<open>H[min_dir]\<close> with
  \<^verbatim>\<open>min_dir = -1\<close>), and a reciprocal \<^verbatim>\<open>1.0 / norm\<close> of a zero norm that is then
  multiplied into the fields (the C++ run goes on with non-finite values).\<close>

datatype fault = OutOfRangeRead | NonFiniteNorm

definition live_cells :: "config \<Rightarrow> state \<Rightarrow> (int \<times> int) list" where
  "live_cells cfg s =
     filter (\<lambda>c. TAMask s (idx cfg c)) (box_cells (x1_min s) (x1_max s) (x2_min s) (x2_max s))"

text \<open>The squared finite-difference gradient at a cell of the frontier: a neighbour outside
  the mask is replaced by the centre value, and the divisor counts the live neighbours.\<close>

definition grad_sq :: "config \<Rightarrow> (int \<Rightarrow> bool) \<Rightarrow> (int \<Rightarrow> real) \<Rightarrow> int \<Rightarrow> int \<Rightarrow> real" where
  "grad_sq cfg msk A g1 g2 =
     (let nx1 = (of_bool (msk (GridToIdx cfg (g1 + 1) g2)) + of_bool (msk (GridToIdx cfg (g1 - 1) g2)) :: int);
          nx2 = (of_bool (msk (GridToIdx cfg g1 (g2 + 1))) + of_bool (msk (GridToIdx cfg g1 (g2 - 1))) :: int);
          f1p = (if msk (GridToIdx cfg (g1 + 1) g2) then A (GridToIdx cfg (g1 + 1) g2) else A (GridToIdx cfg g1 g2));
          f1m = (if msk (GridToIdx cfg (g1 - 1) g2) then A (GridToIdx cfg (g1 - 1) g2) else A (GridToIdx cfg g1 g2));
          f2p = (if msk (GridToIdx cfg g1 (g2 + 1)) then A (GridToIdx cfg g1 (g2 + 1)) else A (GridToIdx cfg g1 g2));
          f2m = (if msk (GridToIdx cfg g1 (g2 - 1)) then A (GridToIdx cfg g1 (g2 - 1)) else A (GridToIdx cfg g1 g2))
      in (if nx1 = 0 then 0 else (\<bar>f1p - f1m\<bar> / (real_of_int nx1 * H0 cfg))\<^sup>2)
         + (if nx2 = 0 then 0 else (\<bar>f2p - f2m\<bar> / (real_of_int nx2 * H1 cfg))\<^sup>2))"

section \<open>The frontier TBL before the Runge-Kutta update\<close>

definition leaking :: "config \<Rightarrow> state \<Rightarrow> int \<Rightarrow> bool" where
  "leaking cfg s k =
     (let g1 = k sdiv M1 cfg;
          g2 = k smod M1 cfg;
          b1 = (mem s PF (GridToIdx cfg g1 g2) \<ge> TolL cfg);
          b2 = (grad_sq cfg (TAMask s) (mem s F) g1 g2 \<ge> TolLd_sq cfg);
          b3 = (g1 > EDGE cfg \<and> g2 > EDGE cfg);
          b4 = (g1 < BoxShape0 cfg - EDGE cfg - 1 \<and> g2 < BoxShape1 cfg - EDGE cfg - 1)
      in (b1 \<or> b2) \<and> b3 \<and> b4)"

definition build_TBL :: "config \<Rightarrow> state \<Rightarrow> state" where
  "build_TBL cfg s = (let tmpVec = filter (leaking cfg s) (TB s) in s\<lparr>TBL := tmpVec, TBL_P := tmpVec\<rparr>)"

section \<open>One pass of the extrapolation loop\<close>

text \<open>\<^verbatim>\<open>std::set_difference\<close> on sorted ranges, and \<^verbatim>\<open>sort\<close> followed by
  \<^verbatim>\<open>std::unique\<close>.\<close>

fun set_difference :: "int list \<Rightarrow> int list \<Rightarrow> int list" where
  "set_difference [] ys = []"
| "set_difference (x # xs) [] = x # xs"
| "set_difference (x # xs) (y # ys) =
     (if x < y then x # set_difference xs (y # ys)
      else if y < x then set_difference (x # xs) ys
      else set_difference xs ys)"

definition sort_unique :: "int list \<Rightarrow> int list" where
  "sort_unique xs = remdups_adj (sort xs)"

text \<open>The extrapolation targets of the frontier: the zero-valued 4-neighbours, in the
  source's order.\<close>

definition targets_of :: "config \<Rightarrow> (int \<Rightarrow> real) \<Rightarrow> int \<Rightarrow> int list" where
  "targets_of cfg A k =
     (let g1 = k sdiv M1 cfg;
          g2 = k smod M1 cfg
      in (if g1 - 1 > EDGE cfg \<and> A (GridToIdx cfg (g1 - 1) g2) = 0 then [GridToIdx cfg (g1 - 1) g2] else [])
       @ (if g1 + 1 < BoxShape0 cfg - EDGE cfg - 1 \<and> A (GridToIdx cfg (g1 + 1) g2) = 0
          then [GridToIdx cfg (g1 + 1) g2] else [])
       @ (if g2 - 1 > EDGE cfg \<and> A (GridToIdx cfg g1 (g2 - 1)) = 0 then [GridToIdx cfg g1 (g2 - 1)] else [])
       @ (if g2 + 1 < BoxShape1 cfg - EDGE cfg - 1 \<and> A (GridToIdx cfg g1 (g2 + 1)) = 0
          then [GridToIdx cfg g1 (g2 + 1)] else []))"

definition ExFF_targets :: "config \<Rightarrow> (int \<Rightarrow> real) \<Rightarrow> int list \<Rightarrow> int list" where
  "ExFF_targets cfg A tbl = concat (map (targets_of cfg A) tbl)"

text \<open>The accumulators of the direction-wise extrapolation at one target
  (\<^verbatim>\<open>sum\<close>, \<^verbatim>\<open>count\<close>, \<^verbatim>\<open>val_min_abs\<close>, \<^verbatim>\<open>val_min\<close>, \<^verbatim>\<open>min_dir\<close>,
  \<^verbatim>\<open>isEmpty\<close>).\<close>

record accum =
  sum_acc :: real
  count_acc :: int
  val_min_abs :: real
  val_min :: real
  min_dir :: int
  isEmpty :: bool

text \<open>\<^verbatim>\<open>val = exp(2.0 * std::log(f1) - std::log(f2))\<close> followed by the test that
  \<^verbatim>\<open>val\<close> is neither NaN nor infinite: \<open>None\<close> is a value that fails the test. A NaN
  of the logarithm (a negative argument) stays a NaN through the difference and the
  exponential; both arguments are non-zero where the expression is evaluated.\<close>

definition geo_val :: "config \<Rightarrow> real \<Rightarrow> real \<Rightarrow> real option" where
  "geo_val cfg f1 f2 =
     (case std_log cfg f1 of
        None \<Rightarrow> None
      | Some l1 \<Rightarrow> (case std_log cfg f2 of None \<Rightarrow> None | Some l2 \<Rightarrow> std_exp cfg (2 * l1 - l2)))"

text \<open>One of the four direction blocks: \<open>f1\<close> is the nearest cell along the direction,
  \<open>f2\<close> the second-nearest, \<open>d\<close> the index of the direction's grid step.\<close>

definition extrap_dir :: "config \<Rightarrow> real \<Rightarrow> real \<Rightarrow> int \<Rightarrow> accum \<Rightarrow> accum" where
  "extrap_dir cfg f1 f2 d a =
     (if f1 \<noteq> 0 then
        (let a1 = (if \<bar>f1\<bar> < val_min_abs a \<and> f2 \<noteq> 0
                   then a\<lparr>val_min_abs := \<bar>f1\<bar>, val_min := f1, min_dir := d\<rparr> else a)
         in if f2 \<noteq> 0 then
              (case geo_val cfg f1 f2 of
                 Some val \<Rightarrow> a1\<lparr>sum_acc := sum_acc a1 + val, count_acc := count_acc a1 + 1, isEmpty := False\<rparr>
               | None \<Rightarrow> a1)
            else a1)
      else a)"

text \<open>\<^verbatim>\<open>H[min_dir]\<close>: the vector \<^verbatim>\<open>H\<close> has the two entries \<^verbatim>\<open>H[0]\<close>, \<^verbatim>\<open>H[1]\<close>.\<close>

definition H_at :: "config \<Rightarrow> int \<Rightarrow> real option" where
  "H_at cfg d = (if d = 0 then Some (H0 cfg) else if d = 1 then Some (H1 cfg) else None)"

definition accum_of :: "config \<Rightarrow> (int \<Rightarrow> real) \<Rightarrow> int \<Rightarrow> accum" where
  "accum_of cfg A k =
     (let g1 = k sdiv M1 cfg;
          g2 = k smod M1 cfg;
          a0 = \<lparr>sum_acc = 0, count_acc = 0, val_min_abs = real_of_int BIG_NUMBER,
                val_min = real_of_int BIG_NUMBER, min_dir = - 1, isEmpty = True\<rparr>;
          a1 = extrap_dir cfg (A (GridToIdx cfg (g1 - 1) g2)) (A (GridToIdx cfg (g1 - 2) g2)) 0 a0;
          a2 = extrap_dir cfg (A (GridToIdx cfg (g1 + 1) g2)) (A (GridToIdx cfg (g1 + 2) g2)) 0 a1;
          a3 = extrap_dir cfg (A (GridToIdx cfg g1 (g2 - 1))) (A (GridToIdx cfg g1 (g2 - 2))) 1 a2
      in extrap_dir cfg (A (GridToIdx cfg g1 (g2 + 1))) (A (GridToIdx cfg g1 (g2 + 2))) 1 a3)"

text \<open>The pair \<^verbatim>\<open>(Check[i], ExTBL[i])\<close> of one target.\<close>

definition extrap_target :: "config \<Rightarrow> (int \<Rightarrow> real) \<Rightarrow> int \<Rightarrow> fault + bool \<times> real" where
  "extrap_target cfg A k =
     (let a = accum_of cfg A k in
      if isEmpty a then Inr (False, 0)
      else if \<bar>sum_acc a / real_of_int (count_acc a)\<bar> > val_min_abs a then
        (case H_at cfg (min_dir a) of
           None \<Rightarrow> Inl OutOfRangeRead
         | Some h \<Rightarrow> Inr (True, val_min a * exp (- ExReduce cfg * h)))
      else Inr (True, sum_acc a / real_of_int (count_acc a)))"

fun collect :: "('e + 'a) list \<Rightarrow> 'e + 'a list" where
  "collect [] = Inr []"
| "collect (x # xs) =
     (case x of
        Inl e \<Rightarrow> Inl e
      | Inr v \<Rightarrow> (case collect xs of Inl e \<Rightarrow> Inl e | Inr vs \<Rightarrow> Inr (v # vs)))"

definition checked :: "int list \<Rightarrow> bool list \<Rightarrow> int list" where
  "checked ex chk = map fst (filter snd (zip ex chk))"

definition assign_F :: "int list \<Rightarrow> (bool \<times> real) list \<Rightarrow> (int \<Rightarrow> real) \<Rightarrow> (int \<Rightarrow> real)" where
  "assign_F ex rs A = fold (\<lambda>kr B. if fst (snd kr) then B(fst kr := snd (snd kr)) else B) (zip ex rs) A"

text \<open>The block \<^verbatim>\<open>if ( ExFF.size() > 0 )\<close> that follows the search for targets: the
  targets minus the frontier, their extrapolated values, the assignment to \<^verbatim>\<open>F\<close>.\<close>

definition extrapolate :: "config \<Rightarrow> state \<Rightarrow> fault + state" where
  "extrapolate cfg s =
     (if ExFF s = [] then Inr s
      else
        (let tbl = sort (TBL s);
             ex = sort_unique (set_difference (sort (ExFF s)) tbl)
         in case collect (map (extrap_target cfg (mem s F)) ex) of
              Inl e \<Rightarrow> Inl e
            | Inr rs \<Rightarrow>
                (let s1 = s\<lparr>TBL := tbl, mem := (mem s)(F := assign_F ex rs (mem s F))\<rparr>
                 in if length (filter fst rs) = 0
                    then Inr (s1\<lparr>ExFF := [], ExTBL := [], Check := []\<rparr>)
                    else Inr (s1\<lparr>ExFF := ex, ExTBL := map snd rs, Check := map fst rs\<rparr>))))"

text \<open>Growing the mask: the non-live 4-neighbours of a cell that lie strictly inside the
  edge-free interior, in the source's order; \<^verbatim>\<open>TAMask[tmpVec[i]] = 1\<close> with the update
  of the bounding box.\<close>

definition grow_neigh :: "config \<Rightarrow> (int \<Rightarrow> bool) \<Rightarrow> int \<Rightarrow> int \<Rightarrow> int list" where
  "grow_neigh cfg msk g1 g2 =
       (if g1 + 1 < BoxShape0 cfg - EDGE cfg - 1 \<and> \<not> msk (GridToIdx cfg (g1 + 1) g2)
        then [GridToIdx cfg (g1 + 1) g2] else [])
     @ (if g1 - 1 > EDGE cfg \<and> \<not> msk (GridToIdx cfg (g1 - 1) g2) then [GridToIdx cfg (g1 - 1) g2] else [])
     @ (if g2 + 1 < BoxShape1 cfg - EDGE cfg - 1 \<and> \<not> msk (GridToIdx cfg g1 (g2 + 1))
        then [GridToIdx cfg g1 (g2 + 1)] else [])
     @ (if g2 - 1 > EDGE cfg \<and> \<not> msk (GridToIdx cfg g1 (g2 - 1)) then [GridToIdx cfg g1 (g2 - 1)] else [])"

definition grow_first :: "config \<Rightarrow> (int \<Rightarrow> bool) \<Rightarrow> int \<Rightarrow> int list" where
  "grow_first cfg msk k =
     (let g1 = k sdiv M1 cfg; g2 = k smod M1 cfg
      in GridToIdx cfg g1 g2 # grow_neigh cfg msk g1 g2)"

definition grow_later :: "config \<Rightarrow> (int \<Rightarrow> bool) \<Rightarrow> int \<Rightarrow> int list" where
  "grow_later cfg msk k =
     (let g1 = k sdiv M1 cfg; g2 = k smod M1 cfg
      in (if \<not> msk (GridToIdx cfg g1 g2) then [GridToIdx cfg g1 g2] else []) @ grow_neigh cfg msk g1 g2)"

definition grow_TB :: "config \<Rightarrow> (int \<Rightarrow> bool) \<Rightarrow> int \<Rightarrow> int list" where
  "grow_TB cfg msk k = grow_neigh cfg msk (k sdiv M1 cfg) (k smod M1 cfg)"

definition box_add :: "config \<Rightarrow> int \<Rightarrow> state \<Rightarrow> state" where
  "box_add cfg k s =
     (let g1 = k sdiv M1 cfg; g2 = k smod M1 cfg
      in s\<lparr>TAMask := (TAMask s)(k := True),
            x1_min := (if g1 < x1_min s then g1 else x1_min s),
            x2_min := (if g2 < x2_min s then g2 else x2_min s),
            x1_max := (if g1 > x1_max s then g1 else x1_max s),
            x2_max := (if g2 > x2_max s then g2 else x2_max s)\<rparr>)"

text \<open>The neighbour offsets up to Manhattan distance 4, as the list \<^verbatim>\<open>neighlist\<close> is
  filled.\<close>

definition neighlist :: "(int \<times> int) list" where
  "neighlist =
     concat (map (\<lambda>d. concat (map (\<lambda>n1. let n2 = d - \<bar>n1\<bar>
                                         in if n2 \<noteq> 0 then [(n1, n2), (n1, - n2)] else [(n1, 0)])
                              [- d..d]))
                 [1..4])"

definition ExBD_of :: "config \<Rightarrow> (int \<Rightarrow> bool) \<Rightarrow> int \<Rightarrow> int list" where
  "ExBD_of cfg msk k =
     (let g1 = k sdiv M1 cfg; g2 = k smod M1 cfg
      in k # map (\<lambda>n. GridToIdx cfg (g1 + fst n) (g2 + snd n))
                 (filter (\<lambda>n. msk (GridToIdx cfg (g1 + fst n) (g2 + snd n))) neighlist))"

text \<open>The branch \<^verbatim>\<open>if ( isFirstExtrp )\<close>: grow the mask by the new cells and their
  neighbours, refresh moments and Maxwellian over the bounding box, run the four stages
  over the live cells of the box.\<close>

definition first_pass_body :: "config \<Rightarrow> state \<Rightarrow> state" where
  "first_pass_body cfg s =
     (let tmpVec = concat (map (grow_first cfg (TAMask s)) (checked (ExFF s) (Check s)));
          s1 = fold (box_add cfg) tmpVec s;
          st1 = fold (\<lambda>i1 st. put st Density i1 0) [0..BoxShape0 cfg - 1] (mem s1);
          st2 = moments_feq_trunc cfg (TAMask s1) (x1_min s1) (x1_max s1) (x2_min s1) (x2_max s1) st1;
          st3 = rk4 cfg (live_cells cfg s1) st2
      in s1\<lparr>mem := st3, isFirstExtrp := False\<rparr>)"

text \<open>The last branch (a later pass with targets): grow the mask, collect \<^verbatim>\<open>ExBD\<close>,
  refresh the Maxwellian and run the four stages over \<^verbatim>\<open>ExBD\<close>.\<close>

definition later_pass_body :: "config \<Rightarrow> state \<Rightarrow> state" where
  "later_pass_body cfg s =
     (let cs = checked (ExFF s) (Check s);
          tmpVec = concat (map (grow_later cfg (TAMask s)) cs);
          s1 = fold (box_add cfg) tmpVec s;
          s2 = s1\<lparr>ExBD := sort_unique (concat (map (ExBD_of cfg (TAMask s1)) cs))\<rparr>;
          st1 = feq_ExBD cfg (ExBD s2) (mem s2);
          st2 = rk4 cfg (map (IdxToGrid cfg) (ExBD s2)) st1
      in s2\<lparr>mem := st2\<rparr>)"

text \<open>The rebuild of the frontier from \<^verbatim>\<open>FF\<close> (with \<^verbatim>\<open>b3 = g2 > EDGE && g2 > EDGE\<close>
  as the source has it), the difference with \<^verbatim>\<open>TBL_P\<close>, and the counter.\<close>

definition spreading :: "config \<Rightarrow> state \<Rightarrow> int \<Rightarrow> bool" where
  "spreading cfg s k =
     (let g1 = k sdiv M1 cfg;
          g2 = k smod M1 cfg;
          f0 = mem s FF (GridToIdx cfg g1 g2);
          b1 = (f0 \<ge> TolH cfg);
          b2 = (grad_sq cfg (TAMask s) (mem s FF) g1 g2 \<ge> TolHd_sq cfg);
          b3 = (g2 > EDGE cfg \<and> g2 > EDGE cfg);
          b4 = (g1 < BoxShape0 cfg - EDGE cfg - 1 \<and> g2 < BoxShape1 cfg - EDGE cfg - 1)
      in (b1 \<or> b2) \<and> b3 \<and> b4)"

definition rebuild_TBL :: "config \<Rightarrow> state \<Rightarrow> state" where
  "rebuild_TBL cfg s =
     (let tmpVec = filter (spreading cfg s) (checked (ExFF s) (Check s));
          tblp = sort (TBL_P s);
          tbl = set_difference (sort tmpVec) tblp;
          n = Excount s + 1
      in s\<lparr>TBL := (if n = ExLimit cfg then [] else tbl),
            TBL_P := sort_unique (tblp @ tbl),
            Excount := n\<rparr>)"

definition ex_pass :: "config \<Rightarrow> state \<Rightarrow> fault + state" where
  "ex_pass cfg s =
     (let s0 = s\<lparr>isExtrapolate := True, TBL := sort_unique (TBL s)\<rparr>;
          s1 = s0\<lparr>ExFF := ExFF_targets cfg (mem s0 F) (TBL s0)\<rparr>
      in case extrapolate cfg s1 of
           Inl e \<Rightarrow> Inl e
         | Inr s2 \<Rightarrow>
             (let s3 = (if isFirstExtrp s2 then first_pass_body cfg s2
                        else if ExFF s2 = [] then s2\<lparr>TBL := []\<rparr>
                        else later_pass_body cfg s2)
              in Inr (if ExFF s3 \<noteq> [] then rebuild_TBL cfg s3 else s3)))"

section \<open>The update without extrapolation, normalization and truncation\<close>

text \<open>\<^verbatim>\<open>CASE 2\<close> (truncated grid, no extrapolation in this step) and \<^verbatim>\<open>CASE 3\<close>
  (full grid).\<close>

definition case2 :: "config \<Rightarrow> state \<Rightarrow> state" where
  "case2 cfg s =
     (let st1 = moments_feq_trunc cfg (TAMask s) (x1_min s) (x1_max s) (x2_min s) (x2_max s) (mem s)
      in s\<lparr>mem := rk4 cfg (live_cells cfg s) st1\<rparr>)"

definition case3 :: "config \<Rightarrow> state \<Rightarrow> state" where
  "case3 cfg s = s\<lparr>mem := rk4 cfg (interior_cells cfg) (moments_feq_full cfg (mem s))\<rparr>"

text \<open>Normalization. The update region is the set of live cells of the bounding box, or
  the edge-free interior in full-grid mode. With an empty region nothing is multiplied by
  the reciprocal.\<close>

definition update_region :: "config \<Rightarrow> state \<Rightarrow> (int \<times> int) list" where
  "update_region cfg s = (if isFullGrid cfg then interior_cells cfg else live_cells cfg s)"

definition norm_sum :: "config \<Rightarrow> (int \<times> int) list \<Rightarrow> (int \<Rightarrow> real) \<Rightarrow> real" where
  "norm_sum cfg cs A = fold (\<lambda>c nrm. nrm + A (idx cfg c)) cs 0"

definition norm_factor :: "config \<Rightarrow> state \<Rightarrow> real" where
  "norm_factor cfg s = norm_sum cfg (update_region cfg s) (mem s FF) * (H0 cfg * H1 cfg)"

definition scale_cell :: "config \<Rightarrow> real \<Rightarrow> int \<times> int \<Rightarrow> store \<Rightarrow> store" where
  "scale_cell cfg nrm c st =
     (let k = idx cfg c;
          val = nrm * st FF k
      in put (put (put st FF k val) F k val) PF k val)"

definition normalize :: "config \<Rightarrow> state \<Rightarrow> fault + state" where
  "normalize cfg s =
     (let cs = update_region cfg s;
          nrm = norm_factor cfg s
      in if cs = [] then Inr s
         else if nrm = 0 then Inl NonFiniteNorm
         else Inr (s\<lparr>mem := fold (scale_cell cfg (1 / nrm)) cs (mem s)\<rparr>))"

text \<open>Truncation at the end of a step: the threshold test that zeroes \<^verbatim>\<open>PF\<close>, the
  update of the mask from \<^verbatim>\<open>PF\<close>, the rebuild of the bounding box, the boundary ring
  \<^verbatim>\<open>TB\<close> and the expansion of the mask by one ring.\<close>

definition prune_cell :: "config \<Rightarrow> (int \<Rightarrow> bool) \<Rightarrow> int \<times> int \<Rightarrow> store \<Rightarrow> store" where
  "prune_cell cfg msk c st =
     (let i1 = fst c; i2 = snd c; k = GridToIdx cfg i1 i2
      in if msk k then
           (if st PF k < TolH cfg then
              (let b1 = (grad_sq cfg msk (st FF) i1 i2 < TolHd_sq cfg)
               in if b1 then put st PF k 0 else st)
            else st)
         else st)"

definition mask_cell :: "config \<Rightarrow> int \<times> int \<Rightarrow> state \<Rightarrow> state" where
  "mask_cell cfg c s =
     (let k = idx cfg c
      in if mem s PF k = 0 then s\<lparr>TAMask := (TAMask s)(k := False), mem := put (mem s) F k 0\<rparr>
         else if \<not> TAMask s k then s\<lparr>TAMask := (TAMask s)(k := True)\<rparr>
         else s)"

definition update_mask :: "config \<Rightarrow> state \<Rightarrow> state" where
  "update_mask cfg s =
     fold (mask_cell cfg) (box_cells (x1_min s) (x1_max s) (x2_min s) (x2_max s)) s"

definition box_cell :: "config \<Rightarrow> int \<times> int \<Rightarrow> state \<Rightarrow> state" where
  "box_cell cfg c s =
     (let i1 = fst c; i2 = snd c
      in if TAMask s (GridToIdx cfg i1 i2) then
           s\<lparr>x1_min := (if i1 < x1_min s then i1 else x1_min s),
              x1_max := (if i1 > x1_max s then i1 else x1_max s),
              x2_min := (if i2 < x2_min s then i2 else x2_min s),
              x2_max := (if i2 > x2_max s then i2 else x2_max s),
              ta_size := ta_size s + 1\<rparr>
         else s)"

definition rebuild_box :: "config \<Rightarrow> state \<Rightarrow> state" where
  "rebuild_box cfg s =
     fold (box_cell cfg) (interior_cells cfg)
       (s\<lparr>x1_min := BIG_NUMBER, x1_max := - BIG_NUMBER,
           x2_min := BIG_NUMBER, x2_max := - BIG_NUMBER, ta_size := 0\<rparr>)"

definition is_boundary :: "config \<Rightarrow> (int \<Rightarrow> bool) \<Rightarrow> int \<times> int \<Rightarrow> bool" where
  "is_boundary cfg msk c =
     (let i1 = fst c; i2 = snd c
      in msk (GridToIdx cfg i1 i2) \<and>
         (\<not> msk (GridToIdx cfg (i1 - 1) i2) \<or> \<not> msk (GridToIdx cfg (i1 + 1) i2) \<or>
          \<not> msk (GridToIdx cfg i1 (i2 - 1)) \<or> \<not> msk (GridToIdx cfg i1 (i2 + 1))))"

definition build_TB :: "config \<Rightarrow> state \<Rightarrow> state" where
  "build_TB cfg s =
     (if ta_size s = 0 then s
      else s\<lparr>TB := map (idx cfg)
                   (filter (is_boundary cfg (TAMask s))
                      (box_cells (x1_min s) (x1_max s) (x2_min s) (x2_max s)))\<rparr>)"

definition expand_TA :: "config \<Rightarrow> state \<Rightarrow> state" where
  "expand_TA cfg s =
     (let tmpVec = concat (map (grow_TB cfg (TAMask s)) (TB s));
          s1 = fold (box_add cfg) tmpVec s
      in s1\<lparr>ta_size := int (length (live_cells cfg s1))\<rparr>)"

definition prune_PF :: "config \<Rightarrow> state \<Rightarrow> state" where
  "prune_PF cfg s =
     s\<lparr>mem := fold (prune_cell cfg (TAMask s))
                (box_cells (x1_min s) (x1_max s) (x2_min s) (x2_max s)) (mem s)\<rparr>"

definition truncate_step :: "config \<Rightarrow> state \<Rightarrow> state" where
  "truncate_step cfg s = expand_TA cfg (build_TB cfg (rebuild_box cfg (update_mask cfg (prune_PF cfg s))))"

section \<open>A potential of the source and a small configuration\<close>

text \<open>\<^verbatim>\<open>Wavefunction_DW2\<close> and \<^verbatim>\<open>Vx_DW2\<close> (the default potential type), with the members
  \<^verbatim>\<open>hb\<close>, \<^verbatim>\<open>A[0]\<close>, \<^verbatim>\<open>A[1]\<close>, \<^verbatim>\<open>Wave0[0]\<close>, \<^verbatim>\<open>Wave0[1]\<close> as arguments.\<close>

definition Wavefunction_DW2 :: "real \<Rightarrow> real \<Rightarrow> real \<Rightarrow> real \<Rightarrow> real \<Rightarrow> real \<Rightarrow> real \<Rightarrow> real" where
  "Wavefunction_DW2 hb a0 a1 w0 w1 x1 x2 =
     (1 / (pi * hb)) * exp (- 2 * a0 * (x1 - w0)\<^sup>2) * exp (- (1/2) * (1 / (hb * hb)) * ((x2 - w1)\<^sup>2 / a1))"

definition Vx_DW2 :: "real \<Rightarrow> real \<Rightarrow> real" where
  "Vx_DW2 x1 x2 = 0"

text \<open>The library functions without rounding and without overflow: the logarithm of a
  negative number is NaN.\<close>

definition log_real :: "real \<Rightarrow> real option" where
  "log_real x = (if 0 < x then Some (ln x) else None)"

definition exp_real :: "real \<Rightarrow> real option" where
  "exp_real y = Some (exp y)"

text \<open>A grid of 7 x 7 points on \<open>[-3, 3] \<times> [-3, 3]\<close> with edge width 2, used to instantiate
  the theorems below.\<close>

definition cfg_small :: config where
  "cfg_small =
     \<lparr>EDGE = 2, BoxShape0 = 7, BoxShape1 = 7, Box0 = - 3, Box2 = - 3, H0 = 1, H1 = 1,
      kk = 1 / 100, mass = 1, kb = 1, temp = 1, gamma = 1,
      TolH = 1 / 1000, TolL = 1 / 100, TolHd = 1 / 1000, TolLd = 1 / 100,
      ExReduce = 1, ExLimit = 1,
      isFullGrid = False, isIsothermal = False, isLinearizedCollision = False,
      POTENTIAL_X = Vx_DW2, WAVEFUNCTION = Wavefunction_DW2 1 (1/2) (1/2) 0 0,
      std_log = log_real, std_exp = exp_real\<rparr>"

text \<open>The containers as they are initialized: every array zero, every list empty.\<close>

definition state_zero :: state where
  "state_zero =
     \<lparr>mem = (\<lambda>b k. 0), TAMask = (\<lambda>k. False), TB = [], TBL = [], TBL_P = [], ExFF = [], ExBD = [],
      Check = [], ExTBL = [], x1_min = BIG_NUMBER, x1_max = - BIG_NUMBER,
      x2_min = BIG_NUMBER, x2_max = - BIG_NUMBER, ta_size = 0, Excount = 0,
      isExtrapolate = False, isFirstExtrp = True\<rparr>"

section \<open>The stage operator of the specification\<close>

text \<open>A buffer read as a field over grid coordinates, and the stage operator in the words of
  the specification: central differences of \<open>g\<close> in both directions and relaxation towards
  \<open>feq\<close>, with the constants \<open>\<Delta>t/(2 h\<^sub>x m)\<close>, \<open>\<Delta>t/(2 h\<^sub>p)\<close> and \<open>\<Delta>t \<gamma>\<close>.\<close>

definition field :: "config \<Rightarrow> (int \<Rightarrow> real) \<Rightarrow> int \<Rightarrow> int \<Rightarrow> real" where
  "field cfg A i j = A (GridToIdx cfg i j)"

definition stage_operator ::
  "config \<Rightarrow> (int \<Rightarrow> int \<Rightarrow> real) \<Rightarrow> (int \<Rightarrow> int \<Rightarrow> real) \<Rightarrow> int \<Rightarrow> int \<Rightarrow> real" where
  "stage_operator cfg g feq i j =
     - (kk cfg / (2 * H0 cfg * mass cfg)) * xx2_of cfg j * (g (i + 1) j - g (i - 1) j)
     + (kk cfg / (2 * H1 cfg)) * POTENTIAL_X cfg (xx1_of cfg i) (xx2_of cfg j) * (g i (j + 1) - g i (j - 1))
     + kk cfg * gamma cfg * (feq i j - g i j)"

text \<open>A state with one populated cell, \<open>(3, 3)\<close> at linear index 24, and the bounding box
  \<open>[2, 4] \<times> [2, 4]\<close>.\<close>

definition state_one_cell :: state where
  "state_one_cell =
     state_zero\<lparr>mem := (\<lambda>b k. if k = 24 \<and> b \<in> {F, FF, PF} then 1 else 0),
                x1_min := 2, x1_max := 4, x2_min := 2, x2_max := 4\<rparr>"

text \<open>A grid of 9 x 9 points with steps 1/100000, and a state on it with a decaying tail:
  4 at \<open>(3, 4)\<close>, 2 at \<open>(4, 4)\<close>. The frontier is the cell \<open>(4, 4)\<close>; its zero-valued
  neighbours are the targets.\<close>

definition cfg_fine :: config where
  "cfg_fine = cfg_small\<lparr>BoxShape0 := 9, BoxShape1 := 9, H0 := 1 / 100000, H1 := 1 / 100000,
                         Box0 := - 4 / 100000, Box2 := - 4 / 100000\<rparr>"

definition state_tail :: state where
  "state_tail =
     state_zero\<lparr>mem := (\<lambda>b k. if b \<in> {F, FF, PF} then (if k = 40 then 2 else if k = 31 then 4 else 0) else 0),
                TAMask := (\<lambda>k. k \<in> {31, 40}), TB := [31, 40], TBL := [40], TBL_P := [40],
                ExFF := [49, 39, 41],
                x1_min := 3, x1_max := 4, x2_min := 4, x2_max := 4, ta_size := 2\<rparr>"

section \<open>Definitions used to state the properties\<close>

text \<open>The update region lies within the rows of the arrays: its column indices are in
  \<open>[0, BoxShape1)\<close>, so that distinct cells have distinct linear indices.\<close>

definition region_in_rows :: "config \<Rightarrow> state \<Rightarrow> bool" where
  "region_in_rows cfg s =
     (if isFullGrid cfg then 0 \<le> EDGE cfg else 0 \<le> x2_min s \<and> x2_max s < BoxShape1 cfg)"


text \<open>The row moments in the words of the specification (full Fokker-Planck mode).\<close>

definition rho_row :: "config \<Rightarrow> (int \<Rightarrow> real) \<Rightarrow> int \<Rightarrow> int list \<Rightarrow> real" where
  "rho_row cfg A i js = H1 cfg * (\<Sum>j\<leftarrow>js. A (GridToIdx cfg i j))"

definition u_row :: "config \<Rightarrow> (int \<Rightarrow> real) \<Rightarrow> int \<Rightarrow> int list \<Rightarrow> real" where
  "u_row cfg A i js =
     H1 cfg / (mass cfg * rho_row cfg A i js) * (\<Sum>j\<leftarrow>js. (Box2 cfg + real_of_int j * H1 cfg) * A (GridToIdx cfg i j))"

definition T_row :: "config \<Rightarrow> (int \<Rightarrow> real) \<Rightarrow> int \<Rightarrow> int list \<Rightarrow> real" where
  "T_row cfg A i js =
     H1 cfg / (mass cfg * kb cfg * rho_row cfg A i js)
       * (\<Sum>j\<leftarrow>js. (Box2 cfg + real_of_int j * H1 cfg - mass cfg * u_row cfg A i js)\<^sup>2 * A (GridToIdx cfg i j))"


text \<open>The value the refresh over \<^verbatim>\<open>ExBD\<close> stores at linear index \<open>k\<close>.\<close>

definition feq_stored :: "config \<Rightarrow> store \<Rightarrow> int \<Rightarrow> real" where
  "feq_stored cfg st k =
     (if st Density (k sdiv M1 cfg) > 0
      then sanitize cfg (feq_val cfg (st Density (k sdiv M1 cfg)) (st Velocity (k sdiv M1 cfg))
                          (st Temperature (k sdiv M1 cfg)) (k smod M1 cfg))
      else 0)"



section \<open>Definitions used to state the extrapolation\<close>

text \<open>The four directions at a target, in the source's order: nearest value, second-nearest
  value, index of the grid step.\<close>

definition dirs_of :: "config \<Rightarrow> (int \<Rightarrow> real) \<Rightarrow> int \<Rightarrow> (real \<times> real \<times> int) list" where
  "dirs_of cfg A k =
     (let g1 = k sdiv M1 cfg; g2 = k smod M1 cfg
      in [(A (GridToIdx cfg (g1 - 1) g2), A (GridToIdx cfg (g1 - 2) g2), 0),
          (A (GridToIdx cfg (g1 + 1) g2), A (GridToIdx cfg (g1 + 2) g2), 0),
          (A (GridToIdx cfg g1 (g2 - 1)), A (GridToIdx cfg g1 (g2 - 2)), 1),
          (A (GridToIdx cfg g1 (g2 + 1)), A (GridToIdx cfg g1 (g2 + 2)), 1)])"

definition formed :: "(real \<times> real \<times> int) list \<Rightarrow> (real \<times> real \<times> int) list" where
  "formed ds = filter (\<lambda>t. fst t \<noteq> 0 \<and> fst (snd t) \<noteq> 0) ds"

text \<open>The finite candidates: the values of the directions whose two cells are both
  non-zero, less those that are NaN or infinite.\<close>

definition candidates :: "config \<Rightarrow> (real \<times> real \<times> int) list \<Rightarrow> real list" where
  "candidates cfg ds =
     concat (map (\<lambda>t. case geo_val cfg (fst t) (fst (snd t)) of None \<Rightarrow> [] | Some v \<Rightarrow> [v]) (formed ds))"

definition accum0 :: accum where
  "accum0 = \<lparr>sum_acc = 0, count_acc = 0, val_min_abs = real_of_int BIG_NUMBER,
              val_min = real_of_int BIG_NUMBER, min_dir = - 1, isEmpty = True\<rparr>"

definition dir_step :: "config \<Rightarrow> real \<times> real \<times> int \<Rightarrow> accum \<Rightarrow> accum" where
  "dir_step cfg t a = extrap_dir cfg (fst t) (fst (snd t)) (snd (snd t)) a"

text \<open>The sums of the candidates.\<close>

definition acc_sums :: "config \<Rightarrow> (real \<times> real \<times> int) list \<Rightarrow> accum \<Rightarrow> bool" where
  "acc_sums cfg ds a \<longleftrightarrow>
     sum_acc a = sum_list (candidates cfg ds) \<and> count_acc a = int (length (candidates cfg ds))
     \<and> isEmpty a = (candidates cfg ds = [])"

text \<open>The running minimum.\<close>

definition acc_min :: "(real \<times> real \<times> int) list \<Rightarrow> accum \<Rightarrow> bool" where
  "acc_min ds a \<longleftrightarrow>
     (val_min_abs a = real_of_int BIG_NUMBER \<and> min_dir a = - 1
        \<and> list_all (\<lambda>t. real_of_int BIG_NUMBER \<le> \<bar>fst t\<bar>) (formed ds))
     \<or> list_ex (\<lambda>t. val_min a = fst t \<and> val_min_abs a = \<bar>fst t\<bar> \<and> min_dir a = snd (snd t)
                   \<and> \<bar>fst t\<bar> < real_of_int BIG_NUMBER
                   \<and> list_all (\<lambda>t'. \<bar>fst t\<bar> \<le> \<bar>fst t'\<bar>) (formed ds)) (formed ds)"

text \<open>The target list of a pass: the targets without the cells of the frontier, sorted,
  without repetitions.\<close>

definition ex_list :: "state \<Rightarrow> int list" where
  "ex_list s = sort_unique (set_difference (sort (ExFF s)) (sort (TBL s)))"

section \<open>The loop, a time step and the initialization\<close>

text \<open>The state between the extrapolation and the rebuild of the frontier.\<close>

definition pass_mid :: "config \<Rightarrow> state \<Rightarrow> state" where
  "pass_mid cfg s2 =
     (if isFirstExtrp s2 then first_pass_body cfg s2
      else if ExFF s2 = [] then s2\<lparr>TBL := []\<rparr>
      else later_pass_body cfg s2)"

definition pass_start :: "config \<Rightarrow> state \<Rightarrow> state" where
  "pass_start cfg s =
     s\<lparr>isExtrapolate := True, TBL := sort_unique (TBL s),
       ExFF := ExFF_targets cfg (mem s F) (sort_unique (TBL s))\<rparr>"

text \<open>The \<^verbatim>\<open>while\<close> loop of CASE 1.\<close>

definition loop_cond :: "config \<Rightarrow> state \<Rightarrow> bool" where
  "loop_cond cfg s \<longleftrightarrow> TBL s \<noteq> [] \<and> \<not> isFullGrid cfg \<and> Excount s < ExLimit cfg"

definition loop_measure :: "config \<times> state \<Rightarrow> nat" where
  "loop_measure p =
     (if TBL (snd p) = [] then 0
      else 2 * nat (ExLimit (fst p) - Excount (snd p)) + (if isFirstExtrp (snd p) then 1 else 0) + 1)"

text \<open>The loop with a bound on the number of passes: \<open>None\<close> when the bound is reached
  with the loop condition still true.\<close>

fun ex_loop_fuel :: "nat \<Rightarrow> config \<Rightarrow> state \<Rightarrow> (fault + state) option" where
  "ex_loop_fuel 0 cfg s = (if loop_cond cfg s then None else Some (Inr s))"
| "ex_loop_fuel (Suc n) cfg s =
     (if loop_cond cfg s then
        (case ex_pass cfg s of Inl e \<Rightarrow> Some (Inl e) | Inr s' \<Rightarrow> ex_loop_fuel n cfg s')
      else Some (Inr s))"

text \<open>The interior test of the frontier on the decoded coordinates of a linear index, the
  grid, and the cells read by the extrapolation at a target (one and two cells back in each
  direction).\<close>

definition strict_interior :: "config \<Rightarrow> int \<Rightarrow> bool" where
  "strict_interior cfg k \<longleftrightarrow>
     (let g1 = k sdiv M1 cfg; g2 = k smod M1 cfg
      in g1 > EDGE cfg \<and> g2 > EDGE cfg
         \<and> g1 < BoxShape0 cfg - EDGE cfg - 1 \<and> g2 < BoxShape1 cfg - EDGE cfg - 1)"

definition in_grid :: "config \<Rightarrow> int \<times> int \<Rightarrow> bool" where
  "in_grid cfg c \<longleftrightarrow> 0 \<le> fst c \<and> fst c < BoxShape0 cfg \<and> 0 \<le> snd c \<and> snd c < BoxShape1 cfg"

definition extrap_reads :: "config \<Rightarrow> int \<Rightarrow> (int \<times> int) list" where
  "extrap_reads cfg k =
     (let g1 = k sdiv M1 cfg; g2 = k smod M1 cfg
      in [(g1 - 1, g2), (g1 - 2, g2), (g1 + 1, g2), (g1 + 2, g2),
          (g1, g2 - 1), (g1, g2 - 2), (g1, g2 + 1), (g1, g2 + 2)])"

text \<open>The states at the head of the loop: the state the loop is entered with, and the state
  after each pass made with the loop condition true.\<close>

inductive loop_reach :: "config \<Rightarrow> state \<Rightarrow> state \<Rightarrow> bool" for cfg :: config and s :: state where
  start: "loop_reach cfg s s"
| pass: "loop_reach cfg s s1 \<Longrightarrow> loop_cond cfg s1 \<Longrightarrow> ex_pass cfg s1 = Inr s2 \<Longrightarrow> loop_reach cfg s s2"

text \<open>The consistency of field and mask: a cell outside the mask holds \<open>F = 0\<close>.\<close>

definition mask_consistent :: "state \<Rightarrow> bool" where
  "mask_consistent s \<longleftrightarrow> (\<forall>k. \<not> TAMask s k \<longrightarrow> mem s F k = 0)"

text \<open>The same for the copy \<^verbatim>\<open>PF\<close>: a cell outside the mask holds \<open>PF = 0\<close>.\<close>

definition PF_masked :: "state \<Rightarrow> bool" where
  "PF_masked s \<longleftrightarrow> (\<forall>k. \<not> TAMask s k \<longrightarrow> mem s PF k = 0)"

text \<open>The blocks of one iteration of the time loop around the extrapolation loop: the counter
  reset and the frontier, \<^verbatim>\<open>CASE 2\<close> or \<^verbatim>\<open>CASE 3\<close> when no pass was made, normalization and truncation.\<close>

definition step_head :: "config \<Rightarrow> state \<Rightarrow> state" where
  "step_head cfg s =
     (let s0 = s\<lparr>Excount := 0\<rparr>;
          s1 = (if \<not> isFullGrid cfg then build_TBL cfg s0 else s0)
      in s1\<lparr>isExtrapolate := False, isFirstExtrp := True\<rparr>)"

definition case_update :: "config \<Rightarrow> state \<Rightarrow> state" where
  "case_update cfg s =
     (if \<not> isExtrapolate s \<and> \<not> isFullGrid cfg then case2 cfg s
      else if \<not> isExtrapolate s \<and> isFullGrid cfg then case3 cfg s
      else s)"

definition finish_step :: "config \<Rightarrow> state \<Rightarrow> fault + state" where
  "finish_step cfg s =
     (case normalize cfg s of
        Inl e \<Rightarrow> Inl e
      | Inr s' \<Rightarrow> Inr (if \<not> isFullGrid cfg then truncate_step cfg s' else s'))"

text \<open>The part of \<^verbatim>\<open>Evolve\<close> before the time iteration: the wavefunction on the edge-free interior, its normalization
  (which also fills \<^verbatim>\<open>PF\<close>), the initial truncation scan, then, unless the scan left no
  live cell (\<^verbatim>\<open>TA is empty\<close>), the bounding box with the zeroing of \<^verbatim>\<open>F\<close> outside the
  mask, the boundary ring, and the expansion of the mask by one ring; last the moments.\<close>

definition init_wave :: "config \<Rightarrow> store \<Rightarrow> store" where
  "init_wave cfg st =
     fold (\<lambda>c st. put st F (idx cfg c) (WAVEFUNCTION cfg (xx1_of cfg (fst c)) (xx2_of cfg (snd c))))
          (interior_cells cfg) st"

definition init_norm_cell :: "config \<Rightarrow> real \<Rightarrow> int \<times> int \<Rightarrow> store \<Rightarrow> store" where
  "init_norm_cell cfg nrm c st =
     (let k = idx cfg c;
          val = nrm * st F k
      in put (put st F k val) PF k val)"

definition init_normalize :: "config \<Rightarrow> store \<Rightarrow> fault + store" where
  "init_normalize cfg st =
     (let cs = interior_cells cfg;
          nrm = norm_sum cfg cs (st F) * (H0 cfg * H1 cfg)
      in if cs = [] then Inr st
         else if nrm = 0 then Inl NonFiniteNorm
         else Inr (fold (init_norm_cell cfg (1 / nrm)) cs st))"

definition init_trunc_cell :: "config \<Rightarrow> int \<times> int \<Rightarrow> state \<Rightarrow> state" where
  "init_trunc_cell cfg c s =
     (let i1 = fst c; i2 = snd c;
          f1p = mem s F (GridToIdx cfg (i1 + 1) i2);
          f1m = mem s F (GridToIdx cfg (i1 - 1) i2);
          f2p = mem s F (GridToIdx cfg i1 (i2 + 1));
          f2m = mem s F (GridToIdx cfg i1 (i2 - 1));
          b1 = (mem s F (GridToIdx cfg i1 i2) < TolH cfg);
          b2 = ((\<bar>f1p - f1m\<bar> / (2 * H0 cfg))\<^sup>2 + (\<bar>f2p - f2m\<bar> / (2 * H1 cfg))\<^sup>2 < TolHd_sq cfg)
      in if b1 \<and> b2 then s\<lparr>mem := put (mem s) PF (GridToIdx cfg i1 i2) 0\<rparr>
         else s\<lparr>TAMask := (TAMask s)(GridToIdx cfg i1 i2 := True), ta_size := ta_size s + 1\<rparr>)"

text \<open>The test \<^verbatim>\<open>b1 && b2\<close> of the initial scan at a cell, on the normalized field.\<close>

definition below_thresholds :: "config \<Rightarrow> (int \<Rightarrow> real) \<Rightarrow> int \<times> int \<Rightarrow> bool" where
  "below_thresholds cfg A c \<longleftrightarrow>
     A (GridToIdx cfg (fst c) (snd c)) < TolH cfg
     \<and> (\<bar>A (GridToIdx cfg (fst c + 1) (snd c)) - A (GridToIdx cfg (fst c - 1) (snd c))\<bar> / (2 * H0 cfg))\<^sup>2
       + (\<bar>A (GridToIdx cfg (fst c) (snd c + 1)) - A (GridToIdx cfg (fst c) (snd c - 1))\<bar> / (2 * H1 cfg))\<^sup>2
       < TolHd_sq cfg"

definition init_box_cell :: "config \<Rightarrow> int \<times> int \<Rightarrow> state \<Rightarrow> state" where
  "init_box_cell cfg c s =
     (let i1 = fst c; i2 = snd c
      in if TAMask s (GridToIdx cfg i1 i2) then
           s\<lparr>x1_min := (if i1 < x1_min s then i1 else x1_min s),
              x1_max := (if i1 > x1_max s then i1 else x1_max s),
              x2_min := (if i2 < x2_min s then i2 else x2_min s),
              x2_max := (if i2 > x2_max s then i2 else x2_max s)\<rparr>
         else s\<lparr>mem := put (mem s) F (GridToIdx cfg i1 i2) 0\<rparr>)"

definition init_scan :: "config \<Rightarrow> fault + state" where
  "init_scan cfg =
     (case init_normalize cfg (init_wave cfg (mem state_zero)) of
        Inl e \<Rightarrow> Inl e
      | Inr st \<Rightarrow>
          Inr (if isFullGrid cfg then state_zero\<lparr>mem := st\<rparr>
               else fold (init_trunc_cell cfg) (interior_cells cfg) (state_zero\<lparr>mem := st\<rparr>)))"

definition init_ring :: "config \<Rightarrow> state \<Rightarrow> state" where
  "init_ring cfg s1 =
     (let s2 = fold (init_box_cell cfg) (interior_cells cfg) s1;
          s3 = s2\<lparr>TB := map (idx cfg)
                          (filter (is_boundary cfg (TAMask s2))
                             (box_cells (x1_min s2) (x1_max s2) (x2_min s2) (x2_max s2)))\<rparr>;
          tmpVec = sort_unique (concat (map (grow_TB cfg (TAMask s3)) (TB s3)));
          s4 = fold (box_add cfg) tmpVec s3
      in s4\<lparr>ta_size := int (length (live_cells cfg s4))\<rparr>)"

definition init_moments :: "config \<Rightarrow> state \<Rightarrow> state" where
  "init_moments cfg s =
     s\<lparr>mem := (if \<not> isFullGrid cfg
                then moments_trunc cfg (TAMask s) (x1_min s) (x1_max s) (x2_min s) (x2_max s) (mem s)
                else moments_full cfg (mem s))\<rparr>"

definition init_finish :: "config \<Rightarrow> state \<Rightarrow> state" where
  "init_finish cfg s1 =
     init_moments cfg (if isFullGrid cfg \<or> ta_size s1 = 0 then s1 else init_ring cfg s1)"

definition Evolve_init :: "config \<Rightarrow> fault + state" where
  "Evolve_init cfg = (case init_scan cfg of Inl e \<Rightarrow> Inl e | Inr s1 \<Rightarrow> Inr (init_finish cfg s1))"

section \<open>Configurations and states used to instantiate the theorems\<close>

text \<open>A state of the 7 x 7 grid at the entry of the loop: the single live cell \<open>(3, 3)\<close> is the
  frontier, and none of its neighbours lies strictly inside the edge-free interior.\<close>

definition state_edge :: state where
  "state_edge = state_one_cell\<lparr>TAMask := (\<lambda>k. k = 24), TB := [24], TBL := [24], TBL_P := [24],
                               ta_size := 1\<rparr>"

text \<open>A grid of 5 x 5 points on \<open>[-2, 2] \<times> [-2, 2]\<close> with edge width 2: the single interior
  cell is \<open>(2, 2)\<close> at the origin, linear index 12. With the threshold \<open>TolH = 2\<close> the
  normalized initial density, 1 at that cell, is below the threshold.\<close>

definition cfg_cell :: config where
  "cfg_cell = cfg_small\<lparr>BoxShape0 := 5, BoxShape1 := 5, Box0 := - 2, Box2 := - 2\<rparr>"

definition cfg_coarse :: config where
  "cfg_coarse = cfg_cell\<lparr>TolH := 2\<rparr>"

definition st_cell :: store where
  "st_cell = (\<lambda>b k. if k = 12 \<and> b \<in> {F, PF} then 1 else 0)"

text \<open>A state without live cells (the log line \<^verbatim>\<open>TA is empty\<close>): no mask entry is set,
  the bounding box is empty and so is the boundary ring. A step leaves the fields as they
  are.\<close>

definition idle :: "state \<Rightarrow> bool" where
  "idle s \<longleftrightarrow> TB s = [] \<and> (\<forall>k. \<not> TAMask s k) \<and> x1_max s < x1_min s"

text \<open>On the grid with one interior cell and the threshold \<open>TolH = 1/1000\<close> the cell is
  live after the initialization, and every step returns to the same field.\<close>

definition one_live :: "state \<Rightarrow> bool" where
  "one_live s \<longleftrightarrow>
     TAMask s = (\<lambda>k. k = 12) \<and> TB s = [12] \<and> mem s F = (\<lambda>k. if k = 12 then 1 else 0)
     \<and> x1_min s = 2 \<and> x1_max s = 2 \<and> x2_min s = 2 \<and> x2_max s = 2"

text \<open>A state at the normalization of a step on the 7 x 7 grid: one live cell, \<open>(3, 3)\<close>,
  with the tentative value \<open>FF = -1\<close>, so that the normalization factor is \<open>-1\<close>.\<close>

definition state_neg :: state where
  "state_neg = state_one_cell\<lparr>mem := (\<lambda>b k. if k = 24 \<and> b = FF then - 1 else 0),
                              TAMask := (\<lambda>k. k = 24), TB := [24], ta_size := 1\<rparr>"

text \<open>A grid of 9 x 9 points with steps \<open>10\<^sup>-\<^sup>6\<close> around the origin, the Gaussian of the small
  configuration and the threshold \<open>TolH = 10\<^sup>1\<^sup>3\<close>. The normalized initial density lies
  between \<open>10\<^sup>1\<^sup>0\<close> and \<open>10\<^sup>1\<^sup>2\<close> at the cells around the centre \<open>(4, 4)\<close>, below the
  threshold. At the centre both central differences vanish, so the initial scan takes the
  centre out of the mask; its neighbours stay live through their gradient.\<close>

definition cfg_peak :: config where
  "cfg_peak = cfg_small\<lparr>BoxShape0 := 9, BoxShape1 := 9, H0 := 1 / 1000000, H1 := 1 / 1000000,
                         Box0 := - 4 / 1000000, Box2 := - 4 / 1000000, TolH := 10000000000000\<rparr>"

text \<open>The Gaussian at the cells of that grid and the normalization factor of the
  initialization.\<close>

definition W_peak :: "int \<times> int \<Rightarrow> real" where
  "W_peak c = WAVEFUNCTION cfg_peak (xx1_of cfg_peak (fst c)) (xx2_of cfg_peak (snd c))"

definition Z_peak :: real where
  "Z_peak = (\<Sum>c\<leftarrow>interior_cells cfg_peak. W_peak c) * (H0 cfg_peak * H1 cfg_peak)"

section \<open>The values written by the stage loops\<close>

text \<open>What the loop of stage 1 and the loops of stages 2 to 4 write at the cell \<open>c\<close> into
  the buffer \<open>b\<close>.\<close>

definition rk4_1_g :: "config \<Rightarrow> buffer \<Rightarrow> store \<Rightarrow> int \<times> int \<Rightarrow> real" where
  "rk4_1_g cfg b st c = (if b = KK1 then KK1_val cfg st c else st F (idx cfg c) + KK1_val cfg st c / 6)"

definition rk4_n_g :: "config \<Rightarrow> buffer \<Rightarrow> buffer \<Rightarrow> real \<Rightarrow> real \<Rightarrow> buffer \<Rightarrow> store \<Rightarrow> int \<times> int \<Rightarrow> real" where
  "rk4_n_g cfg src dst a w b st c =
     (if b = FF then st FF (idx cfg c) + KKn_val cfg src a st c / w else KKn_val cfg src a st c)"

section \<open>Lemmas: indices and loops that write one cell at a time\<close>

lemma put_apply: "put st b k v b' k' = (if b' = b \<and> k' = k then v else st b' k')"
  by (simp add: put_def)

lemma GridToIdx_inj:
  assumes "0 \<le> j" "j < W1 cfg" "0 \<le> j'" "j' < W1 cfg"
    and "GridToIdx cfg i j = GridToIdx cfg i' j'"
  shows "i = i' \<and> j = j'"
proof -
  have e: "i * W1 cfg + j = i' * W1 cfg + j'" using assms(5) by (simp add: GridToIdx_def)
  have "(i * W1 cfg + j) div W1 cfg = i" using assms(1,2) by simp
  moreover have "(i' * W1 cfg + j') div W1 cfg = i'" using assms(3,4) by simp
  ultimately have "i = i'" using e by simp
  with e show ?thesis by simp
qed

lemma set_box_cells: "set (box_cells a b c d) = {a..b} \<times> {c..d}"
  by (simp add: box_cells_def)

lemma distinct_box_cells: "distinct (box_cells a b c d)"
  by (simp add: box_cells_def distinct_product)

lemma idx_inj_on_box:
  assumes "0 \<le> c" "d < W1 cfg"
  shows "inj_on (idx cfg) (set (box_cells a b c d))"
  unfolding inj_on_def
proof (intro ballI impI)
  fix x y assume x: "x \<in> set (box_cells a b c d)" and y: "y \<in> set (box_cells a b c d)"
    and e: "idx cfg x = idx cfg y"
  have "0 \<le> snd x" "snd x < W1 cfg" "0 \<le> snd y" "snd y < W1 cfg"
    using x y assms by (auto simp: set_box_cells)
  then have "fst x = fst y \<and> snd x = snd y"
    using e GridToIdx_inj [of "snd x" cfg "snd y" "fst x" "fst y"] by (simp add: idx_def)
  then show "x = y" by (simp add: prod_eq_iff)
qed

lemma distinct_idx_box:
  "0 \<le> c \<Longrightarrow> d < W1 cfg \<Longrightarrow> distinct (map (idx cfg) (box_cells a b c d))"
  by (simp add: distinct_map distinct_box_cells idx_inj_on_box)

text \<open>A loop whose body writes only at the index of its own cell.\<close>

lemma fold_cells_off:
  assumes A: "\<And>c st b k. f c st b k = (if k = key c \<and> b \<in> W then g b st c else st b k)"
    and "k \<notin> key ` set cs \<or> b \<notin> W"
  shows "fold f cs st b k = st b k"
  using assms(2)
proof (induction cs arbitrary: st)
  case Nil
  then show ?case by simp
next
  case (Cons x xs)
  have "fold f (x # xs) st b k = fold f xs (f x st) b k" by simp
  also have "\<dots> = f x st b k" using Cons by auto
  also have "\<dots> = st b k" using Cons.prems by (auto simp: A)
  finally show ?case .
qed

lemma fold_cells_on:
  assumes A: "\<And>c st b k. f c st b k = (if k = key c \<and> b \<in> W then g b st c else st b k)"
    and B: "\<And>c st st' b. (\<forall>b'. b' \<notin> W \<longrightarrow> st' b' = st b') \<Longrightarrow>
              (\<forall>b'. st' b' (key c) = st b' (key c)) \<Longrightarrow> g b st' c = g b st c"
    and "distinct (map key cs)" "c \<in> set cs" "b \<in> W"
  shows "fold f cs st b (key c) = g b st c"
  using assms(3,4)
proof (induction cs arbitrary: st)
  case Nil
  then show ?case by simp
next
  case (Cons x xs)
  note bW = assms(5)
  show ?case
  proof (cases "c = x")
    case True
    have "key x \<notin> key ` set xs" using Cons.prems(1) by auto
    then have "fold f xs (f x st) b (key x) = f x st b (key x)"
      using fold_cells_off [of f key W g "key x" xs b "f x st"] A by blast
    moreover have "f x st b (key x) = g b st x" using A [of x st b "key x"] bW by simp
    ultimately show ?thesis using True by simp
  next
    case False
    then have c: "c \<in> set xs" using Cons.prems(2) by simp
    then have ne: "key c \<noteq> key x" using Cons.prems(1) by (auto simp: image_iff)
    have "fold f xs (f x st) b (key c) = g b (f x st) c"
      using Cons.IH [of "f x st"] Cons.prems(1) c by simp
    also have "\<dots> = g b st c"
    proof (rule B)
      show "\<forall>b'. b' \<notin> W \<longrightarrow> f x st b' = st b'"
      proof (intro allI impI ext)
        fix b' k assume "b' \<notin> W"
        then show "f x st b' k = st b' k" using A [of x st b' k] by simp
      qed
      show "\<forall>b'. f x st b' (key c) = st b' (key c)"
      proof
        fix b' show "f x st b' (key c) = st b' (key c)" using A [of x st b' "key c"] ne by simp
      qed
    qed
    finally show ?thesis by simp
  qed
qed

text \<open>The first stage loop.\<close>

lemma rk4_1_cell_apply:
  "rk4_1_cell cfg c st b k =
     (if k = idx cfg c \<and> b \<in> {KK1, FF} then rk4_1_g cfg b st c else st b k)"
  by (auto simp: rk4_1_cell_def rk4_1_g_def Let_def put_apply)

lemma KK1_val_cong:
  "st' F = st F \<Longrightarrow> st' Feq_loc = st Feq_loc \<Longrightarrow> KK1_val cfg st' c = KK1_val cfg st c"
  by (simp add: KK1_val_def)

lemma rk4_1_g_cong:
  "\<forall>b'. b' \<notin> {KK1, FF} \<longrightarrow> st' b' = st b' \<Longrightarrow> rk4_1_g cfg b st' c = rk4_1_g cfg b st c"
  using KK1_val_cong [of st' st cfg c] by (simp add: rk4_1_g_def)

lemma fold_rk4_1_off:
  "k \<notin> idx cfg ` set cs \<or> b \<notin> {KK1, FF} \<Longrightarrow> fold (rk4_1_cell cfg) cs st b k = st b k"
  by (rule fold_cells_off [where g = "rk4_1_g cfg" and W = "{KK1, FF}" and key = "idx cfg"])
     (rule rk4_1_cell_apply)

lemma fold_rk4_1_on:
  assumes "distinct (map (idx cfg) cs)" "c \<in> set cs" "b \<in> {KK1, FF}"
  shows "fold (rk4_1_cell cfg) cs st b (idx cfg c) = rk4_1_g cfg b st c"
proof (rule fold_cells_on [where g = "rk4_1_g cfg" and W = "{KK1, FF}" and key = "idx cfg"])
  show "\<And>c st b k. rk4_1_cell cfg c st b k =
       (if k = idx cfg c \<and> b \<in> {KK1, FF} then rk4_1_g cfg b st c else st b k)"
    by (rule rk4_1_cell_apply)
  show "\<And>c st st' b. \<forall>b'. b' \<notin> {KK1, FF} \<longrightarrow> st' b' = st b' \<Longrightarrow>
       \<forall>b'. st' b' (idx cfg c) = st b' (idx cfg c) \<Longrightarrow>
       rk4_1_g cfg b st' c = rk4_1_g cfg b st c"
    by (rule rk4_1_g_cong)
qed (use assms in auto)

text \<open>The loops of stages 2 to 4.\<close>

lemma rk4_n_cell_apply:
  "dst \<noteq> FF \<Longrightarrow> rk4_n_cell cfg src dst a w c st b k =
     (if k = idx cfg c \<and> b \<in> {dst, FF} then rk4_n_g cfg src dst a w b st c else st b k)"
  by (auto simp: rk4_n_cell_def rk4_n_g_def Let_def put_apply)

lemma KKn_val_cong:
  "st' F = st F \<Longrightarrow> st' Feq_loc = st Feq_loc \<Longrightarrow> st' src = st src \<Longrightarrow>
   KKn_val cfg src a st' c = KKn_val cfg src a st c"
  by (simp add: KKn_val_def)

lemma rk4_n_g_cong:
  assumes "F \<notin> {dst, FF}" "Feq_loc \<notin> {dst, FF}" "src \<notin> {dst, FF}"
    and "\<forall>b'. b' \<notin> {dst, FF} \<longrightarrow> st' b' = st b'"
    and "\<forall>b'. st' b' (idx cfg c) = st b' (idx cfg c)"
  shows "rk4_n_g cfg src dst a w b st' c = rk4_n_g cfg src dst a w b st c"
  using KKn_val_cong [of st' st src cfg a c] assms by (simp add: rk4_n_g_def)

lemma fold_rk4_n_off:
  "dst \<noteq> FF \<Longrightarrow> k \<notin> idx cfg ` set cs \<or> b \<notin> {dst, FF} \<Longrightarrow>
   fold (rk4_n_cell cfg src dst a w) cs st b k = st b k"
  by (rule fold_cells_off [where g = "rk4_n_g cfg src dst a w" and W = "{dst, FF}" and key = "idx cfg"])
     (rule rk4_n_cell_apply, assumption+)

lemma fold_rk4_n_on:
  assumes "dst \<noteq> FF" "F \<notin> {dst, FF}" "Feq_loc \<notin> {dst, FF}" "src \<notin> {dst, FF}"
    and "distinct (map (idx cfg) cs)" "c \<in> set cs" "b \<in> {dst, FF}"
  shows "fold (rk4_n_cell cfg src dst a w) cs st b (idx cfg c) = rk4_n_g cfg src dst a w b st c"
proof (rule fold_cells_on [where g = "rk4_n_g cfg src dst a w" and W = "{dst, FF}" and key = "idx cfg"])
  show "\<And>c st b k. rk4_n_cell cfg src dst a w c st b k =
       (if k = idx cfg c \<and> b \<in> {dst, FF} then rk4_n_g cfg src dst a w b st c else st b k)"
    using assms(1) by (rule rk4_n_cell_apply)
  show "\<And>c st st' b. \<forall>b'. b' \<notin> {dst, FF} \<longrightarrow> st' b' = st b' \<Longrightarrow>
       \<forall>b'. st' b' (idx cfg c) = st b' (idx cfg c) \<Longrightarrow>
       rk4_n_g cfg src dst a w b st' c = rk4_n_g cfg src dst a w b st c"
    using assms(2,3,4) by (rule rk4_n_g_cong)
qed (use assms in auto)

section \<open>Lemmas: the four stages\<close>

lemma fold_frame: "(\<And>x st. f x st b = st b) \<Longrightarrow> fold f xs st b = st b"
  by (induction xs arbitrary: st) simp_all

lemma put_buf: "b' \<noteq> b \<Longrightarrow> put st b k v b' = st b'"
  by (simp add: put_def)

lemma put_moments_frame:
  "b \<notin> {Density, Velocity, Temperature} \<Longrightarrow> put_moments i1 mo st b = st b"
  by (simp add: put_moments_def put_buf)

lemma moments_feq_row_frame:
  "b \<notin> {Feq_loc, Density, Velocity, Temperature} \<Longrightarrow> moments_feq_row cfg js i1 st b = st b"
  by (simp add: moments_feq_row_def Let_def put_moments_frame fold_frame put_buf)

lemma moments_feq_full_frame:
  "b \<notin> {Feq_loc, Density, Velocity, Temperature} \<Longrightarrow> moments_feq_full cfg st b = st b"
  unfolding moments_feq_full_def by (rule fold_frame) (rule moments_feq_row_frame)

lemma moments_feq_trunc_frame:
  "b \<notin> {Feq_loc, Density, Velocity, Temperature} \<Longrightarrow> moments_feq_trunc cfg msk a1 b1 c1 d1 st b = st b"
  unfolding moments_feq_trunc_def by (rule fold_frame) (rule moments_feq_row_frame)

lemma fold_rk4_1_buf:
  "b \<notin> {KK1, FF} \<Longrightarrow> fold (rk4_1_cell cfg) cs st b = st b"
  by (rule ext) (simp add: fold_rk4_1_off)

lemma fold_rk4_n_buf:
  "dst \<noteq> FF \<Longrightarrow> b \<notin> {dst, FF} \<Longrightarrow> fold (rk4_n_cell cfg src dst a w) cs st b = st b"
  by (rule ext) (simp add: fold_rk4_n_off)

lemma KK1_val_operator:
  "KK1_val cfg st (i, j) = stage_operator cfg (field cfg (st F)) (field cfg (st Feq_loc)) i j"
  by (simp add: KK1_val_def stage_operator_def field_def Let_def k2h0m_def k2h1_def kgamma_def)

lemma KKn_val_operator:
  "KKn_val cfg src a st (i, j) =
     stage_operator cfg (\<lambda>x y. field cfg (st F) x y + a * field cfg (st src) x y) (field cfg (st Feq_loc)) i j"
  by (simp add: KKn_val_def stage_operator_def field_def Let_def k2h0m_def k2h1_def kgamma_def diff_diff_eq)

text \<open>The four stages over a set of cells with distinct linear indices.\<close>

lemma rk4_cells:
  fixes cfg :: config and cs :: "(int \<times> int) list" and st :: store and i j :: int
  assumes d: "distinct (map (idx cfg) cs)" and c: "(i, j) \<in> set cs"
  defines "st' \<equiv> rk4 cfg cs st"
  shows "field cfg (st' KK1) i j = stage_operator cfg (field cfg (st F)) (field cfg (st Feq_loc)) i j"
    and "field cfg (st' KK2) i j =
         stage_operator cfg (\<lambda>x y. field cfg (st F) x y + (1/2) * field cfg (st' KK1) x y) (field cfg (st Feq_loc)) i j"
    and "field cfg (st' KK3) i j =
         stage_operator cfg (\<lambda>x y. field cfg (st F) x y + (1/2) * field cfg (st' KK2) x y) (field cfg (st Feq_loc)) i j"
    and "field cfg (st' KK4) i j =
         stage_operator cfg (\<lambda>x y. field cfg (st F) x y + 1 * field cfg (st' KK3) x y) (field cfg (st Feq_loc)) i j"
    and "field cfg (st' FF) i j = field cfg (st F) i j + field cfg (st' KK1) i j / 6
           + field cfg (st' KK2) i j / 3 + field cfg (st' KK3) i j / 3 + field cfg (st' KK4) i j / 6"
    and "st' F = st F" and "st' Feq_loc = st Feq_loc"
proof -
  define st1 where "st1 = fold (rk4_1_cell cfg) cs st"
  define st2 where "st2 = fold (rk4_n_cell cfg KK1 KK2 (1/2) 3) cs st1"
  define st3 where "st3 = fold (rk4_n_cell cfg KK2 KK3 (1/2) 3) cs st2"
  have st': "st' = fold (rk4_n_cell cfg KK3 KK4 1 6) cs st3"
    by (simp add: st'_def rk4_def Let_def st1_def st2_def st3_def)
  have k: "idx cfg (i, j) = GridToIdx cfg i j" by (simp add: idx_def)
  have f1: "\<And>b. b \<notin> {KK1, FF} \<Longrightarrow> st1 b = st b"
    unfolding st1_def by (rule fold_rk4_1_buf)
  have f2: "\<And>b. b \<notin> {KK2, FF} \<Longrightarrow> st2 b = st1 b"
    unfolding st2_def by (rule fold_rk4_n_buf) simp_all
  have f3: "\<And>b. b \<notin> {KK3, FF} \<Longrightarrow> st3 b = st2 b"
    unfolding st3_def by (rule fold_rk4_n_buf) simp_all
  have f4: "\<And>b. b \<notin> {KK4, FF} \<Longrightarrow> st' b = st3 b"
    unfolding st' by (rule fold_rk4_n_buf) simp_all
  show F': "st' F = st F" by (simp add: f1 f2 f3 f4)
  show Q': "st' Feq_loc = st Feq_loc" by (simp add: f1 f2 f3 f4)
  have K1': "st' KK1 = st1 KK1" by (simp add: f2 f3 f4)
  have K2': "st' KK2 = st2 KK2" by (simp add: f3 f4)
  have K3': "st' KK3 = st3 KK3" by (simp add: f4)
  have v1: "st1 KK1 (GridToIdx cfg i j) = KK1_val cfg st (i, j)"
    and w1: "st1 FF (GridToIdx cfg i j) = st F (GridToIdx cfg i j) + KK1_val cfg st (i, j) / 6"
    using fold_rk4_1_on [OF d c, of KK1 st] fold_rk4_1_on [OF d c, of FF st]
    by (simp_all add: st1_def k rk4_1_g_def)
  have v2: "st2 KK2 (GridToIdx cfg i j) = KKn_val cfg KK1 (1/2) st1 (i, j)"
    and w2: "st2 FF (GridToIdx cfg i j) = st1 FF (GridToIdx cfg i j) + KKn_val cfg KK1 (1/2) st1 (i, j) / 3"
    using fold_rk4_n_on [OF _ _ _ _ d c, of KK2 KK1 KK2 "1/2" 3 st1]
          fold_rk4_n_on [OF _ _ _ _ d c, of KK2 KK1 FF "1/2" 3 st1]
    by (simp_all add: st2_def k rk4_n_g_def)
  have v3: "st3 KK3 (GridToIdx cfg i j) = KKn_val cfg KK2 (1/2) st2 (i, j)"
    and w3: "st3 FF (GridToIdx cfg i j) = st2 FF (GridToIdx cfg i j) + KKn_val cfg KK2 (1/2) st2 (i, j) / 3"
    using fold_rk4_n_on [OF _ _ _ _ d c, of KK3 KK2 KK3 "1/2" 3 st2]
          fold_rk4_n_on [OF _ _ _ _ d c, of KK3 KK2 FF "1/2" 3 st2]
    by (simp_all add: st3_def k rk4_n_g_def)
  have v4: "st' KK4 (GridToIdx cfg i j) = KKn_val cfg KK3 1 st3 (i, j)"
    and w4: "st' FF (GridToIdx cfg i j) = st3 FF (GridToIdx cfg i j) + KKn_val cfg KK3 1 st3 (i, j) / 6"
    using fold_rk4_n_on [OF _ _ _ _ d c, of KK4 KK3 KK4 1 6 st3]
          fold_rk4_n_on [OF _ _ _ _ d c, of KK4 KK3 FF 1 6 st3]
    by (simp_all add: st' k rk4_n_g_def)
  have c2: "KKn_val cfg KK1 (1/2) st1 (i, j) = KKn_val cfg KK1 (1/2) st' (i, j)"
    by (rule KKn_val_cong [symmetric]) (simp_all add: f1 f2 f3 f4)
  have c3: "KKn_val cfg KK2 (1/2) st2 (i, j) = KKn_val cfg KK2 (1/2) st' (i, j)"
    by (rule KKn_val_cong [symmetric]) (simp_all add: f1 f2 f3 f4)
  have c4: "KKn_val cfg KK3 1 st3 (i, j) = KKn_val cfg KK3 1 st' (i, j)"
    by (rule KKn_val_cong [symmetric]) (simp_all add: f1 f2 f3 f4)
  show r1: "field cfg (st' KK1) i j = stage_operator cfg (field cfg (st F)) (field cfg (st Feq_loc)) i j"
    using v1 by (simp add: K1' field_def KK1_val_operator)
  show r2: "field cfg (st' KK2) i j =
         stage_operator cfg (\<lambda>x y. field cfg (st F) x y + (1/2) * field cfg (st' KK1) x y) (field cfg (st Feq_loc)) i j"
    using v2 c2 KKn_val_operator [of cfg KK1 "1/2" st' i j] by (simp add: K2' field_def F' Q')
  show r3: "field cfg (st' KK3) i j =
         stage_operator cfg (\<lambda>x y. field cfg (st F) x y + (1/2) * field cfg (st' KK2) x y) (field cfg (st Feq_loc)) i j"
    using v3 c3 KKn_val_operator [of cfg KK2 "1/2" st' i j] by (simp add: K3' field_def F' Q')
  show r4: "field cfg (st' KK4) i j =
         stage_operator cfg (\<lambda>x y. field cfg (st F) x y + 1 * field cfg (st' KK3) x y) (field cfg (st Feq_loc)) i j"
    using v4 c4 KKn_val_operator [of cfg KK3 1 st' i j] by (simp add: field_def F' Q')
  show "field cfg (st' FF) i j = field cfg (st F) i j + field cfg (st' KK1) i j / 6
           + field cfg (st' KK2) i j / 3 + field cfg (st' KK3) i j / 3 + field cfg (st' KK4) i j / 6"
    using w1 w2 w3 w4 v1 v2 v3 v4 by (simp add: field_def K1' K2' K3')
qed

section \<open>Lemmas: loops over rows, normalization, moments, Maxwellian\<close>

text \<open>A loop whose pass \<open>r\<close> writes buffer \<open>b\<close> only at the indices \<open>keys r\<close>.\<close>

lemma fold_rows_off:
  assumes A: "\<And>r st k. f r st b k = (if k \<in> keys r then g r st k else st b k)"
    and "\<forall>r \<in> set rs. k \<notin> keys r"
  shows "fold f rs st b k = st b k"
  using assms(2)
proof (induction rs arbitrary: st)
  case Nil
  then show ?case by simp
next
  case (Cons x xs)
  have "fold f (x # xs) st b k = fold f xs (f x st) b k" by simp
  also have "\<dots> = f x st b k" using Cons by simp
  also have "\<dots> = st b k" using Cons.prems A [of x st k] by simp
  finally show ?case .
qed

lemma fold_rows_on:
  assumes A: "\<And>r st k. f r st b k = (if k \<in> keys r then g r st k else st b k)"
    and B: "\<And>r x st k. x \<in> set rs \<Longrightarrow> r \<in> set rs \<Longrightarrow> x \<noteq> r \<Longrightarrow> k \<in> keys r \<Longrightarrow>
              g r (f x st) k = g r st k"
    and D: "\<And>r r'. r \<in> set rs \<Longrightarrow> r' \<in> set rs \<Longrightarrow> r \<noteq> r' \<Longrightarrow> keys r \<inter> keys r' = {}"
    and "distinct rs" "r \<in> set rs" "k \<in> keys r"
  shows "fold f rs st b k = g r st k"
proof -
  have "\<And>st. set ys \<subseteq> set rs \<Longrightarrow> distinct ys \<Longrightarrow> r \<in> set ys \<Longrightarrow> fold f ys st b k = g r st k" for ys
  proof (induction ys)
    case Nil
    then show ?case by simp
  next
    case (Cons x xs)
    show ?case
    proof (cases "r = x")
      case True
      have "\<forall>r' \<in> set xs. k \<notin> keys r'"
      proof
        fix r' assume r': "r' \<in> set xs"
        then have "r' \<noteq> r" using Cons.prems(2) True by auto
        moreover have "r' \<in> set rs" using r' Cons.prems(1) by auto
        ultimately have "keys r \<inter> keys r' = {}" using D [of r r'] assms(5) by auto
        then show "k \<notin> keys r'" using assms(6) by auto
      qed
      then have "fold f xs (f x st) b k = f x st b k"
        using fold_rows_off [of f b keys g xs k "f x st"] A by blast
      moreover have "f x st b k = g r st k" using A [of x st k] True assms(6) by simp
      ultimately show ?thesis by simp
    next
      case False
      then have r: "r \<in> set xs" using Cons.prems(3) by simp
      have "fold f xs (f x st) b k = g r (f x st) k"
        using Cons.IH [of "f x st"] Cons.prems r by simp
      also have "\<dots> = g r st k"
        using B [of x r k st] False Cons.prems(1) assms(5,6) by auto
      finally show ?thesis by simp
    qed
  qed
  from this [of rs st] show ?thesis using assms(4,5) by simp
qed

lemma fold_add_sum_list: "fold (\<lambda>c (n::real). n + g c) cs a = a + sum_list (map g cs)"
  by (induction cs arbitrary: a) simp_all

lemma norm_sum_eq: "norm_sum cfg cs A = (\<Sum>c\<leftarrow>cs. A (idx cfg c))"
  by (simp add: norm_sum_def fold_add_sum_list)

lemma scale_cell_apply:
  "scale_cell cfg nrm c st b k =
     (if k = idx cfg c \<and> b \<in> {FF, F, PF} then nrm * st FF (idx cfg c) else st b k)"
  unfolding scale_cell_def Let_def put_def by auto

lemma fold_scale_on:
  assumes "distinct (map (idx cfg) cs)" "c \<in> set cs" "b \<in> {FF, F, PF}"
  shows "fold (scale_cell cfg nrm) cs st b (idx cfg c) = nrm * st FF (idx cfg c)"
proof (rule fold_cells_on [where g = "\<lambda>b st c. nrm * st FF (idx cfg c)" and W = "{FF, F, PF}" and key = "idx cfg"])
  show "\<And>c st b k. scale_cell cfg nrm c st b k =
       (if k = idx cfg c \<and> b \<in> {FF, F, PF} then nrm * st FF (idx cfg c) else st b k)"
    by (rule scale_cell_apply)
qed (use assms in auto)

lemma fold_scale_off:
  "k \<notin> idx cfg ` set cs \<or> b \<notin> {FF, F, PF} \<Longrightarrow> fold (scale_cell cfg nrm) cs st b k = st b k"
  by (rule fold_cells_off [where g = "\<lambda>b st c. nrm * st FF (idx cfg c)" and W = "{FF, F, PF}" and key = "idx cfg"])
     (rule scale_cell_apply)

lemma distinct_update_region:
  assumes "region_in_rows cfg s"
  shows "distinct (map (idx cfg) (update_region cfg s))"
proof (cases "isFullGrid cfg")
  case True
  then show ?thesis using assms
    by (simp add: update_region_def region_in_rows_def interior_cells_def distinct_idx_box W1_def)
next
  case False
  then have "distinct (map (idx cfg) (box_cells (x1_min s) (x1_max s) (x2_min s) (x2_max s)))"
    using assms by (simp add: region_in_rows_def distinct_idx_box W1_def)
  then show ?thesis using False
    by (simp add: update_region_def live_cells_def distinct_map_filter)
qed




lemma row_density_eq:
  "row_density cfg st i1 js = H1 cfg * (\<Sum>j\<leftarrow>js. st F (GridToIdx cfg i1 j))"
proof -
  have "row_density cfg st i1 js = (\<Sum>j\<leftarrow>js. st F (GridToIdx cfg i1 j) * H1 cfg)"
    by (simp add: row_density_def fold_add_sum_list)
  also have "\<dots> = (\<Sum>j\<leftarrow>js. st F (GridToIdx cfg i1 j)) * H1 cfg" by (rule sum_list_mult_const)
  finally show ?thesis by simp
qed

lemma row_velocity_eq:
  "row_velocity cfg st i1 js = H1 cfg * (\<Sum>j\<leftarrow>js. xx2_of cfg j * st F (GridToIdx cfg i1 j))"
proof -
  have "row_velocity cfg st i1 js = (\<Sum>j\<leftarrow>js. (xx2_of cfg j * st F (GridToIdx cfg i1 j)) * H1 cfg)"
    by (simp add: row_velocity_def fold_add_sum_list)
  also have "\<dots> = (\<Sum>j\<leftarrow>js. xx2_of cfg j * st F (GridToIdx cfg i1 j)) * H1 cfg"
    by (rule sum_list_mult_const)
  finally show ?thesis by simp
qed

lemma row_temp_eq:
  "row_temp cfg st i1 u js =
     H1 cfg * (\<Sum>j\<leftarrow>js. (xx2_of cfg j - mass cfg * u)\<^sup>2 * st F (GridToIdx cfg i1 j))"
proof -
  have "row_temp cfg st i1 u js =
        (\<Sum>j\<leftarrow>js. ((xx2_of cfg j - mass cfg * u)\<^sup>2 * st F (GridToIdx cfg i1 j)) * H1 cfg)"
    by (simp add: row_temp_def fold_add_sum_list)
  also have "\<dots> = (\<Sum>j\<leftarrow>js. (xx2_of cfg j - mass cfg * u)\<^sup>2 * st F (GridToIdx cfg i1 j)) * H1 cfg"
    by (rule sum_list_mult_const)
  finally show ?thesis by simp
qed

lemma moments_row_cong: "st' F = st F \<Longrightarrow> moments_row cfg st' i1 js = moments_row cfg st i1 js"
  unfolding moments_row_def row_density_def row_velocity_def row_temp_def Let_def by simp

lemma put_moments_apply:
  "put_moments i1 mo st b k =
     (if k = i1 \<and> b = Density then fst mo
      else if k = i1 \<and> b = Velocity then fst (snd mo)
      else if k = i1 \<and> b = Temperature then snd (snd mo)
      else st b k)"
  unfolding put_moments_def put_def by auto

text \<open>The columns of one row: the Maxwellian written at \<open>GridToIdx cfg i1 i2\<close>.\<close>

lemma fold_feq_row:
  "fold (\<lambda>i2 st. put st Feq_loc (GridToIdx cfg i1 i2) (v i2)) js st b k =
     (if b = Feq_loc \<and> k - i1 * W1 cfg \<in> set js then v (k - i1 * W1 cfg) else st b k)"
proof (induction js arbitrary: st)
  case Nil
  then show ?case by simp
next
  case (Cons x xs)
  have "put st Feq_loc (GridToIdx cfg i1 x) (v x) b k =
        (if b = Feq_loc \<and> k - i1 * W1 cfg = x then v x else st b k)"
    unfolding put_def GridToIdx_def by auto
  then show ?case using Cons.IH [of "put st Feq_loc (GridToIdx cfg i1 x) (v x)"] by auto
qed

lemma moments_feq_row_apply:
  "moments_feq_row cfg js i1 st b k =
     (if b = Feq_loc \<and> k - i1 * W1 cfg \<in> set js then feq_cell cfg (moments_row cfg st i1 js) (k - i1 * W1 cfg)
      else if k = i1 \<and> b = Density then fst (moments_row cfg st i1 js)
      else if k = i1 \<and> b = Velocity then fst (snd (moments_row cfg st i1 js))
      else if k = i1 \<and> b = Temperature then snd (snd (moments_row cfg st i1 js))
      else st b k)"
  unfolding moments_feq_row_def Let_def put_moments_apply fold_feq_row by auto

lemma moments_feq_row_F: "moments_feq_row cfg js i1 st F = st F"
  by (rule ext) (simp add: moments_feq_row_apply)

lemma put_moments_F: "put_moments i1 mo st F = st F"
  by (rule ext) (simp add: put_moments_apply)






lemma moments_row_full_FP:
  assumes "\<not> isLinearizedCollision cfg" "\<not> isIsothermal cfg"
  shows "moments_row cfg st i js =
     (if rho_row cfg (st F) i js \<le> 0 then (0, 0, 0)
      else (rho_row cfg (st F) i js, u_row cfg (st F) i js, T_row cfg (st F) i js))"
proof -
  have u: "row_velocity cfg st i js / (mass cfg * row_density cfg st i js) = u_row cfg (st F) i js"
    by (simp add: row_velocity_eq row_density_eq u_row_def rho_row_def xx2_of_def)
  have "row_temp cfg st i (u_row cfg (st F) i js) js / (mass cfg * kb cfg * row_density cfg st i js)
        = T_row cfg (st F) i js"
    by (simp add: row_temp_eq row_density_eq T_row_def rho_row_def xx2_of_def)
  then show ?thesis using assms u
    by (simp add: moments_row_def Let_def) (simp add: row_density_eq rho_row_def)
qed


lemma GridToIdx_image: "k \<in> GridToIdx cfg r ` set js \<longleftrightarrow> k - r * W1 cfg \<in> set js"
proof
  assume "k \<in> GridToIdx cfg r ` set js"
  then obtain j where "j \<in> set js" "k = r * W1 cfg + j" by (auto simp: GridToIdx_def)
  then show "k - r * W1 cfg \<in> set js" by simp
next
  assume "k - r * W1 cfg \<in> set js"
  moreover have "k = GridToIdx cfg r (k - r * W1 cfg)" by (simp add: GridToIdx_def)
  ultimately show "k \<in> GridToIdx cfg r ` set js" by blast
qed

lemma GridToIdx_diff: "GridToIdx cfg i j - i * W1 cfg = j"
  by (simp add: GridToIdx_def)

lemma rows_disjoint:
  assumes "set js \<subseteq> {0..<W1 cfg}" "set js' \<subseteq> {0..<W1 cfg}" "r \<noteq> r'"
  shows "GridToIdx cfg r ` set js \<inter> GridToIdx cfg r' ` set js' = {}"
proof (rule ccontr)
  assume "GridToIdx cfg r ` set js \<inter> GridToIdx cfg r' ` set js' \<noteq> {}"
  then obtain j j' where j: "j \<in> set js" "j' \<in> set js'" "GridToIdx cfg r j = GridToIdx cfg r' j'"
    by auto
  have "0 \<le> j" "j < W1 cfg" "0 \<le> j'" "j' < W1 cfg" using j(1,2) assms(1,2) by auto
  then have "r = r'" using GridToIdx_inj [of j cfg j' r r'] j(3) by simp
  then show False using assms(3) by simp
qed

lemma set_live_cols: "set (live_cols cfg msk c d i) \<subseteq> {c..d}"
  by (auto simp: live_cols_def)

lemma moments_feq_rows_cell:
  assumes cols: "\<And>r. set (js r) \<subseteq> {0..<W1 cfg}"
    and i: "i \<in> set rs" and d: "distinct rs" and j: "j \<in> set (js i)"
  shows "fold (\<lambda>i1 st. moments_feq_row cfg (js i1) i1 st) rs st Feq_loc (GridToIdx cfg i j) =
         feq_cell cfg (moments_row cfg st i (js i)) j"
proof -
  have "fold (\<lambda>i1 st. moments_feq_row cfg (js i1) i1 st) rs st Feq_loc (GridToIdx cfg i j) =
        feq_cell cfg (moments_row cfg st i (js i)) (GridToIdx cfg i j - i * W1 cfg)"
  proof (rule fold_rows_on [where keys = "\<lambda>r. GridToIdx cfg r ` set (js r)"
        and g = "\<lambda>r st k. feq_cell cfg (moments_row cfg st r (js r)) (k - r * W1 cfg)"])
    show "\<And>r st k. moments_feq_row cfg (js r) r st Feq_loc k =
         (if k \<in> GridToIdx cfg r ` set (js r)
          then feq_cell cfg (moments_row cfg st r (js r)) (k - r * W1 cfg) else st Feq_loc k)"
      by (simp add: moments_feq_row_apply GridToIdx_image)
    show "\<And>r x st k. feq_cell cfg (moments_row cfg (moments_feq_row cfg (js x) x st) r (js r)) (k - r * W1 cfg)
          = feq_cell cfg (moments_row cfg st r (js r)) (k - r * W1 cfg)"
      by (rule arg_cong [where f = "\<lambda>m. feq_cell cfg m _"], rule moments_row_cong, rule moments_feq_row_F)
    show "\<And>r r'. r \<noteq> r' \<Longrightarrow> GridToIdx cfg r ` set (js r) \<inter> GridToIdx cfg r' ` set (js r') = {}"
      using cols by (intro rows_disjoint) auto
    show "distinct rs" by (rule d)
    show "i \<in> set rs" by (rule i)
    show "GridToIdx cfg i j \<in> GridToIdx cfg i ` set (js i)" using j by simp
  qed
  then show ?thesis by (simp add: GridToIdx_diff)
qed

lemma moments_feq_trunc_cell:
  assumes "a \<le> i" "i \<le> b" "0 \<le> c" "d < BoxShape1 cfg" "j \<in> set (live_cols cfg msk c d i)"
  shows "moments_feq_trunc cfg msk a b c d st Feq_loc (GridToIdx cfg i j) =
         feq_cell cfg (moments_row cfg st i (live_cols cfg msk c d i)) j"
  unfolding moments_feq_trunc_def
proof (rule moments_feq_rows_cell [where js = "\<lambda>r. live_cols cfg msk c d r"])
  show "\<And>r. set (live_cols cfg msk c d r) \<subseteq> {0..<W1 cfg}"
  proof -
    fix r show "set (live_cols cfg msk c d r) \<subseteq> {0..<W1 cfg}"
      using set_live_cols [of cfg msk c d r] assms(3,4) by (auto simp: W1_def)
  qed
qed (use assms in simp_all)

lemma moments_feq_full_cell:
  assumes "0 \<le> i" "i < BoxShape0 cfg" "0 \<le> j" "j < BoxShape1 cfg"
  shows "moments_feq_full cfg st Feq_loc (GridToIdx cfg i j) =
         feq_cell cfg (moments_row cfg st i [0..BoxShape1 cfg - 1]) j"
  unfolding moments_feq_full_def
proof (rule moments_feq_rows_cell [where js = "\<lambda>r. [0..BoxShape1 cfg - 1]"])
  show "\<And>r. set [0..BoxShape1 cfg - 1] \<subseteq> {0..<W1 cfg}" by (auto simp: W1_def)
qed (use assms in simp_all)

lemma GridToIdx_decode: "GridToIdx cfg (k sdiv M1 cfg) (k smod M1 cfg) = k"
  by (simp add: GridToIdx_def W1_def M1_def sdiv_mult_smod_eq)

lemma feq_ExBD_cell_apply:
  "feq_ExBD_cell cfg k st b k' = (if b = Feq_loc \<and> k' = k then feq_stored cfg st k else st b k')"
  unfolding feq_ExBD_cell_def Let_def GridToIdx_decode feq_stored_def put_def by auto

lemma feq_ExBD_frame: "b \<noteq> Feq_loc \<Longrightarrow> feq_ExBD cfg ks st b = st b"
  unfolding feq_ExBD_def by (rule fold_frame) (rule ext, simp add: feq_ExBD_cell_apply)

lemma feq_stored_cong:
  "st' Density = st Density \<Longrightarrow> st' Velocity = st Velocity \<Longrightarrow> st' Temperature = st Temperature \<Longrightarrow>
   feq_stored cfg st' k = feq_stored cfg st k"
  by (simp add: feq_stored_def)

lemma feq_ExBD_cell_stored:
  "k \<in> set ks \<Longrightarrow> feq_ExBD cfg ks st Feq_loc k = feq_stored cfg st k"
proof (induction ks rule: rev_induct)
  case Nil
  then show ?case by simp
next
  case (snoc x xs)
  define st1 where "st1 = feq_ExBD cfg xs st"
  have e: "feq_ExBD cfg (xs @ [x]) st = feq_ExBD_cell cfg x st1"
    by (simp add: feq_ExBD_def st1_def)
  have c: "feq_stored cfg st1 x = feq_stored cfg st x"
    by (rule feq_stored_cong) (simp_all add: st1_def feq_ExBD_frame)
  show ?case
  proof (cases "k = x")
    case True
    then show ?thesis using c by (simp add: e feq_ExBD_cell_apply)
  next
    case False
    then have "k \<in> set xs" using snoc.prems by simp
    then show ?thesis using snoc.IH False by (simp add: e feq_ExBD_cell_apply st1_def)
  qed
qed

lemma rk4_frame: "b \<notin> {KK1, KK2, KK3, KK4, FF} \<Longrightarrow> rk4 cfg cs st b = st b"
  by (simp add: rk4_def Let_def fold_rk4_n_buf fold_rk4_1_buf)

section \<open>Lemmas: the mask update, the Maxwellian of a step\<close>

lemma mask_cell_TAMask:
  "TAMask (mask_cell cfg c s) k = (if k = idx cfg c then mem s PF k \<noteq> 0 else TAMask s k)"
  by (simp add: mask_cell_def Let_def)

lemma mask_cell_mem:
  "mem (mask_cell cfg c s) b k =
     (if b = F \<and> k = idx cfg c \<and> mem s PF k = 0 then 0 else mem s b k)"
  by (auto simp: mask_cell_def Let_def put_apply)

lemma mask_cell_PF: "mem (mask_cell cfg c s) PF = mem s PF"
  by (rule ext) (simp add: mask_cell_mem)

lemma fold_mask_cell_PF: "mem (fold (mask_cell cfg) cs s) PF = mem s PF"
  by (induction cs arbitrary: s) (simp_all add: mask_cell_PF)

lemma fold_mask_cell:
  "(k \<in> idx cfg ` set cs \<longrightarrow>
      TAMask (fold (mask_cell cfg) cs s) k = (mem s PF k \<noteq> 0)
    \<and> mem (fold (mask_cell cfg) cs s) F k = (if mem s PF k = 0 then 0 else mem s F k))
   \<and> (k \<notin> idx cfg ` set cs \<longrightarrow>
      TAMask (fold (mask_cell cfg) cs s) k = TAMask s k
    \<and> mem (fold (mask_cell cfg) cs s) F k = mem s F k)"
proof (induction cs rule: rev_induct)
  case Nil
  then show ?case by simp
next
  case (snoc x xs)
  define s1 where "s1 = fold (mask_cell cfg) xs s"
  have e: "fold (mask_cell cfg) (xs @ [x]) s = mask_cell cfg x s1" by (simp add: s1_def)
  have p: "mem s1 PF = mem s PF" by (simp add: s1_def fold_mask_cell_PF)
  show ?case
    using snoc.IH unfolding e s1_def [symmetric]
    by (auto simp: mask_cell_TAMask mask_cell_mem p)
qed

lemma fold_mask_cell_other:
  "b \<noteq> F \<Longrightarrow> mem (fold (mask_cell cfg) cs s) b = mem s b"
  by (induction cs arbitrary: s) (simp_all add: mask_cell_mem fun_eq_iff)

lemma sanitize_clip:
  "sanitize cfg v = (case v of None \<Rightarrow> 0 | Some x \<Rightarrow> if x > 1 / (H0 cfg * H1 cfg) then 0 else x)"
  by (simp add: sanitize_def)

lemma case2_Feq:
  "mem (case2 cfg s) Feq_loc =
     moments_feq_trunc cfg (TAMask s) (x1_min s) (x1_max s) (x2_min s) (x2_max s) (mem s) Feq_loc"
  by (simp add: case2_def Let_def rk4_frame)

lemma case3_Feq: "mem (case3 cfg s) Feq_loc = moments_feq_full cfg (mem s) Feq_loc"
  by (simp add: case3_def rk4_frame)

section \<open>Lemmas: the extrapolation at one target\<close>

lemma accum_of_fold: "accum_of cfg A k = fold (dir_step cfg) (dirs_of cfg A k) accum0"
  by (simp add: accum_of_def dirs_of_def Let_def dir_step_def accum0_def)

lemma geo_val_real:
  assumes "std_log cfg = log_real" "std_exp cfg = exp_real" "0 < f1" "0 < f2"
  shows "geo_val cfg f1 f2 = Some (f1\<^sup>2 / f2)"
proof -
  have "exp (2 * ln f1 - ln f2) = exp (2 * ln f1) / exp (ln f2)" by (rule exp_diff)
  also have "exp (2 * ln f1) = (exp (ln f1))\<^sup>2" by (rule exp_double)
  finally show ?thesis using assms by (simp add: geo_val_def log_real_def exp_real_def)
qed

lemma candidates_snoc: "candidates cfg (ds @ [t]) = candidates cfg ds @ candidates cfg [t]"
  by (simp add: candidates_def formed_def)

lemma dir_step_sums:
  "sum_acc (dir_step cfg t a) = sum_acc a + sum_list (candidates cfg [t])"
  "count_acc (dir_step cfg t a) = count_acc a + int (length (candidates cfg [t]))"
  "isEmpty (dir_step cfg t a) = (isEmpty a \<and> candidates cfg [t] = [])"
  by (simp_all add: dir_step_def extrap_dir_def Let_def candidates_def formed_def split: option.splits)

lemma fold_dir_step_sums: "acc_sums cfg ds (fold (dir_step cfg) ds accum0)"
proof (induction ds rule: rev_induct)
  case Nil
  then show ?case by (simp add: acc_sums_def accum0_def candidates_def formed_def)
next
  case (snoc t ds)
  then show ?case by (simp add: acc_sums_def candidates_snoc dir_step_sums)
qed

lemma dir_step_min:
  "val_min_abs (dir_step cfg t a) = (if fst t \<noteq> 0 \<and> fst (snd t) \<noteq> 0 \<and> \<bar>fst t\<bar> < val_min_abs a then \<bar>fst t\<bar> else val_min_abs a)"
  "val_min (dir_step cfg t a) = (if fst t \<noteq> 0 \<and> fst (snd t) \<noteq> 0 \<and> \<bar>fst t\<bar> < val_min_abs a then fst t else val_min a)"
  "min_dir (dir_step cfg t a) = (if fst t \<noteq> 0 \<and> fst (snd t) \<noteq> 0 \<and> \<bar>fst t\<bar> < val_min_abs a then snd (snd t) else min_dir a)"
  by (auto simp: dir_step_def extrap_dir_def Let_def split: option.splits)

lemma formed_snoc:
  "formed (ds @ [t]) = formed ds @ (if fst t \<noteq> 0 \<and> fst (snd t) \<noteq> 0 then [t] else [])"
  by (simp add: formed_def)

lemma fold_dir_step_min: "acc_min ds (fold (dir_step cfg) ds accum0)"
proof (induction ds rule: rev_induct)
  case Nil
  then show ?case by (simp add: acc_min_def accum0_def formed_def)
next
  case (snoc t ds)
  define a where "a = fold (dir_step cfg) ds accum0"
  have IH: "acc_min ds a" using snoc by (simp add: a_def)
  have e: "fold (dir_step cfg) (ds @ [t]) accum0 = dir_step cfg t a" by (simp add: a_def)
  show ?case
  proof (cases "fst t \<noteq> 0 \<and> fst (snd t) \<noteq> 0")
    case False
    then have s: "val_min_abs (dir_step cfg t a) = val_min_abs a" "val_min (dir_step cfg t a) = val_min a"
        "min_dir (dir_step cfg t a) = min_dir a"
      by (auto simp: dir_step_min)
    have f: "formed (ds @ [t]) = formed ds" using False by (auto simp: formed_snoc)
    show ?thesis using IH unfolding e by (simp add: acc_min_def s f)
  next
    case T: True
    then have f: "formed (ds @ [t]) = formed ds @ [t]" by (simp add: formed_snoc)
    show ?thesis
    proof (cases "\<bar>fst t\<bar> < val_min_abs a")
      case True
      then have s: "val_min_abs (dir_step cfg t a) = \<bar>fst t\<bar>" "val_min (dir_step cfg t a) = fst t"
          "min_dir (dir_step cfg t a) = snd (snd t)"
        using T by (auto simp: dir_step_min)
      have m: "list_all (\<lambda>t'. \<bar>fst t\<bar> \<le> \<bar>fst t'\<bar>) (formed ds)"
        using IH True by (auto simp: acc_min_def list_all_iff list_ex_iff)
      have b: "\<bar>fst t\<bar> < real_of_int BIG_NUMBER"
        using IH True by (auto simp: acc_min_def list_all_iff list_ex_iff)
      show ?thesis unfolding e acc_min_def s f using m b by simp
    next
      case False
      then have s: "val_min_abs (dir_step cfg t a) = val_min_abs a" "val_min (dir_step cfg t a) = val_min a"
          "min_dir (dir_step cfg t a) = min_dir a"
        by (auto simp: dir_step_min)
      from IH consider
          (none) "val_min_abs a = real_of_int BIG_NUMBER" "min_dir a = - 1"
                 "list_all (\<lambda>t. real_of_int BIG_NUMBER \<le> \<bar>fst t\<bar>) (formed ds)"
        | (some) t0 where "t0 \<in> set (formed ds)" "val_min a = fst t0" "val_min_abs a = \<bar>fst t0\<bar>"
                 "min_dir a = snd (snd t0)" "\<bar>fst t0\<bar> < real_of_int BIG_NUMBER"
                 "list_all (\<lambda>t'. \<bar>fst t0\<bar> \<le> \<bar>fst t'\<bar>) (formed ds)"
        by (auto simp: acc_min_def list_ex_iff)
      then show ?thesis
      proof cases
        case none
        then show ?thesis unfolding e acc_min_def s f using False by simp
      next
        case some
        then have "list_ex (\<lambda>t'. val_min a = fst t' \<and> val_min_abs a = \<bar>fst t'\<bar> \<and> min_dir a = snd (snd t')
                   \<and> \<bar>fst t'\<bar> < real_of_int BIG_NUMBER
                   \<and> list_all (\<lambda>t''. \<bar>fst t'\<bar> \<le> \<bar>fst t''\<bar>) (formed ds @ [t])) (formed ds @ [t])"
          using False by (auto simp: list_ex_iff)
        then show ?thesis unfolding e acc_min_def s f by blast
      qed
    qed
  qed
qed

lemma dirs_of_dir: "t \<in> set (dirs_of cfg A k) \<Longrightarrow> snd (snd t) = 0 \<or> snd (snd t) = 1"
  by (auto simp: dirs_of_def Let_def)

lemma H_at_dir: "d = 0 \<or> d = 1 \<Longrightarrow> H_at cfg d = Some (if d = 0 then H0 cfg else H1 cfg)"
  by (auto simp: H_at_def)

lemma extrap_target_value:
  fixes cfg :: config and A :: "int \<Rightarrow> real" and k :: int
  defines "ds \<equiv> dirs_of cfg A k"
  defines "avg \<equiv> sum_list (candidates cfg ds) / real (length (candidates cfg ds))"
  shows "(candidates cfg ds = [] \<longrightarrow> extrap_target cfg A k = Inr (False, 0))
       \<and> (candidates cfg ds \<noteq> [] \<and> list_ex (\<lambda>t. \<bar>fst t\<bar> < real_of_int BIG_NUMBER) (formed ds) \<longrightarrow>
            list_ex (\<lambda>t. list_all (\<lambda>t'. \<bar>fst t\<bar> \<le> \<bar>fst t'\<bar>) (formed ds)
                       \<and> extrap_target cfg A k =
                           Inr (True, if \<bar>avg\<bar> > \<bar>fst t\<bar>
                                      then fst t * exp (- ExReduce cfg * (if snd (snd t) = 0 then H0 cfg else H1 cfg))
                                      else avg))
                    (formed ds))"
proof -
  define a where "a = accum_of cfg A k"
  have af: "a = fold (dir_step cfg) ds accum0" by (simp add: a_def ds_def accum_of_fold)
  have su: "sum_acc a = sum_list (candidates cfg ds)" "count_acc a = int (length (candidates cfg ds))"
      "isEmpty a = (candidates cfg ds = [])"
    using fold_dir_step_sums [of cfg ds] by (simp_all add: af acc_sums_def)
  have av: "sum_acc a / real_of_int (count_acc a) = avg" by (simp add: su avg_def)
  have mi: "acc_min ds a" using fold_dir_step_min [of ds cfg] by (simp add: af)
  have ex: "extrap_target cfg A k =
      (if isEmpty a then Inr (False, 0)
       else if \<bar>avg\<bar> > val_min_abs a then
         (case H_at cfg (min_dir a) of None \<Rightarrow> Inl OutOfRangeRead
          | Some h \<Rightarrow> Inr (True, val_min a * exp (- ExReduce cfg * h)))
       else Inr (True, avg))"
    by (simp add: extrap_target_def Let_def a_def [symmetric] av)
  have one: "candidates cfg ds = [] \<longrightarrow> extrap_target cfg A k = Inr (False, 0)"
    by (simp add: ex su)
  have two: "list_ex (\<lambda>t. list_all (\<lambda>t'. \<bar>fst t\<bar> \<le> \<bar>fst t'\<bar>) (formed ds)
                       \<and> extrap_target cfg A k =
                           Inr (True, if \<bar>avg\<bar> > \<bar>fst t\<bar>
                                      then fst t * exp (- ExReduce cfg * (if snd (snd t) = 0 then H0 cfg else H1 cfg))
                                      else avg))
                    (formed ds)"
    if ne: "candidates cfg ds \<noteq> []" and sm: "list_ex (\<lambda>t. \<bar>fst t\<bar> < real_of_int BIG_NUMBER) (formed ds)"
  proof -
    from mi sm obtain t0 where t0: "t0 \<in> set (formed ds)" "val_min a = fst t0" "val_min_abs a = \<bar>fst t0\<bar>"
        "min_dir a = snd (snd t0)" "list_all (\<lambda>t'. \<bar>fst t0\<bar> \<le> \<bar>fst t'\<bar>) (formed ds)"
      by (fastforce simp: acc_min_def list_ex_iff list_all_iff)
    have "t0 \<in> set ds" using t0(1) by (simp add: formed_def)
    then have h: "H_at cfg (min_dir a) = Some (if snd (snd t0) = 0 then H0 cfg else H1 cfg)"
      unfolding t0(4) ds_def by (intro H_at_dir dirs_of_dir)
    have "extrap_target cfg A k =
            Inr (True, if \<bar>avg\<bar> > \<bar>fst t0\<bar>
                       then fst t0 * exp (- ExReduce cfg * (if snd (snd t0) = 0 then H0 cfg else H1 cfg))
                       else avg)"
      using ne by (simp add: ex su h t0(2,3))
    then show ?thesis using t0(1,5) by (auto simp: list_ex_iff)
  qed
  show ?thesis using one two by blast
qed


lemma sdiv_24_7: "(24::int) sdiv 7 = 3" "(24::int) smod 7 = 3"
  by (simp_all add: signed_divide_int_def signed_modulo_int_def)

lemma distinct_remdups_adj_sorted: "sorted xs \<Longrightarrow> distinct (remdups_adj xs)"
proof (induction xs rule: remdups_adj.induct)
  case 1
  then show ?case by simp
next
  case (2 x)
  then show ?case by simp
next
  case (3 x y xs)
  show ?case
  proof (cases "x = y")
    case True
    then show ?thesis using 3 by simp
  next
    case False
    then have "x \<notin> set (y # xs)" using "3.prems" by auto
    then show ?thesis using 3 False by simp
  qed
qed

lemma distinct_sort_unique: "distinct (sort_unique xs)"
  by (simp add: sort_unique_def distinct_remdups_adj_sorted)

lemma set_sort_unique: "set (sort_unique xs) = set xs"
  by (simp add: sort_unique_def)

lemma set_set_difference: "set (set_difference xs ys) \<subseteq> set xs"
  by (induction xs ys rule: set_difference.induct) auto

lemma collect_Inr: "collect xs = Inr vs \<Longrightarrow> xs = map Inr vs"
proof (induction xs arbitrary: vs)
  case Nil
  then show ?case by simp
next
  case (Cons x xs)
  then show ?case by (auto split: sum.splits)
qed

lemma collect_map_Inr:
  assumes "collect (map f ks) = Inr rs"
  shows "length rs = length ks" and "\<And>n. n < length ks \<Longrightarrow> f (ks ! n) = Inr (rs ! n)"
proof -
  have m: "map f ks = map Inr rs" using assms by (rule collect_Inr)
  then show "length rs = length ks" by (metis length_map)
  fix n assume "n < length ks"
  then show "f (ks ! n) = Inr (rs ! n)" using m by (metis length_map nth_map)
qed

lemma assign_F_out: "k \<notin> set ex \<Longrightarrow> assign_F ex rs A k = A k"
proof -
  have "\<And>B. k \<notin> fst ` set zs \<Longrightarrow>
        fold (\<lambda>kr B. if fst (snd kr) then B(fst kr := snd (snd kr)) else B) zs B k = B k" for zs
    by (induction zs) auto
  moreover assume "k \<notin> set ex"
  then have "k \<notin> fst ` set (zip ex rs)" by (auto dest: set_zip_leftD)
  ultimately show ?thesis by (simp add: assign_F_def)
qed

lemma assign_F_in:
  assumes "distinct ex" "length rs = length ex" "n < length ex"
  shows "assign_F ex rs A (ex ! n) = (if fst (rs ! n) then snd (rs ! n) else A (ex ! n))"
  using assms
proof (induction ex rs arbitrary: n A rule: list_induct2')
  case (4 x xs y ys)
  have u: "assign_F (x # xs) (y # ys) A = assign_F xs ys (if fst y then A(x := snd y) else A)"
    by (simp add: assign_F_def)
  show ?case
  proof (cases n)
    case 0
    have "x \<notin> set xs" using 4 by simp
    then show ?thesis using 0 by (simp add: u assign_F_out)
  next
    case (Suc m)
    then have "xs ! m \<noteq> x" using 4 by auto
    then show ?thesis using 4 Suc by (simp add: u)
  qed
qed simp_all

lemma filter_zip_map_fst:
  "length ks = length rs \<Longrightarrow>
   filter snd (zip ks (map fst rs)) = map (\<lambda>kr. (fst kr, fst (snd kr))) (filter (\<lambda>kr. fst (snd kr)) (zip ks rs))"
  by (induction ks rs rule: list_induct2) simp_all

lemma filter_zip_empty:
  "length ks = length rs \<Longrightarrow>
   (filter (\<lambda>kr. fst (snd kr)) (zip ks rs) = []) = (filter fst rs = [])"
  by (induction ks rs rule: list_induct2) simp_all

lemma extrapolate_mem:
  assumes "ExFF s \<noteq> []" "extrapolate cfg s = Inr s'"
  obtains rs where "collect (map (extrap_target cfg (mem s F)) (ex_list s)) = Inr rs"
    and "mem s' = (mem s)(F := assign_F (ex_list s) rs (mem s F))"
    and "checked (ExFF s') (Check s') = map fst (filter (\<lambda>kr. fst (snd kr)) (zip (ex_list s) rs))"
    and "TAMask s' = TAMask s"
proof -
  from assms obtain rs where c: "collect (map (extrap_target cfg (mem s F)) (ex_list s)) = Inr rs"
    by (auto simp: extrapolate_def Let_def ex_list_def split: sum.splits)
  have l: "length rs = length (ex_list s)" using collect_map_Inr(1) [OF c] .
  have f: "filter snd (zip (ex_list s) (map fst rs)) = map (\<lambda>kr. (fst kr, fst (snd kr))) (filter (\<lambda>kr. fst (snd kr)) (zip (ex_list s) rs))"
    using l by (intro filter_zip_map_fst) simp
  have e: "filter (\<lambda>kr. fst (snd kr)) (zip (ex_list s) rs) = [] \<longleftrightarrow> filter fst rs = []"
    using l by (intro filter_zip_empty) simp
  show ?thesis
  proof (cases "filter fst rs = []")
    case True
    with assms c e have "mem s' = (mem s)(F := assign_F (ex_list s) rs (mem s F))"
        "checked (ExFF s') (Check s') = map fst (filter (\<lambda>kr. fst (snd kr)) (zip (ex_list s) rs))"
        "TAMask s' = TAMask s"
      unfolding extrapolate_def Let_def ex_list_def [symmetric] by (auto simp: checked_def)
    then show ?thesis using that c by blast
  next
    case False
    with assms c have "mem s' = (mem s)(F := assign_F (ex_list s) rs (mem s F))"
        "ExFF s' = ex_list s" "Check s' = map fst rs" "TAMask s' = TAMask s"
      unfolding extrapolate_def Let_def ex_list_def [symmetric] by auto
    then show ?thesis using that [OF c] f by (simp add: checked_def comp_def)
  qed
qed

lemma sdiv_9:
  "(39::int) sdiv 9 = 4" "(39::int) smod 9 = 3" "(41::int) sdiv 9 = 4" "(41::int) smod 9 = 5"
  "(49::int) sdiv 9 = 5" "(49::int) smod 9 = 4" "(40::int) sdiv 9 = 4" "(40::int) smod 9 = 4"
  by (simp_all add: signed_divide_int_def signed_modulo_int_def)

lemma M1_fine: "M1 cfg_fine = 9" "W1 cfg_fine = 9"
  by (simp_all add: M1_def W1_def cfg_fine_def cfg_small_def)

section \<open>One pass of the extrapolation loop: what it leaves unchanged\<close>

lemma fold_state_inv: "P s \<Longrightarrow> (\<And>x s. P s \<Longrightarrow> P (f x s)) \<Longrightarrow> P (fold f xs s)"
  by (induction xs arbitrary: s) simp_all

lemma box_add_frame:
  "mem (box_add cfg k s) = mem s" "TBL (box_add cfg k s) = TBL s" "TBL_P (box_add cfg k s) = TBL_P s"
  "ExFF (box_add cfg k s) = ExFF s" "Check (box_add cfg k s) = Check s" "ExTBL (box_add cfg k s) = ExTBL s"
  "Excount (box_add cfg k s) = Excount s" "isFirstExtrp (box_add cfg k s) = isFirstExtrp s"
  "isExtrapolate (box_add cfg k s) = isExtrapolate s" "TB (box_add cfg k s) = TB s"
  "ExBD (box_add cfg k s) = ExBD s" "ta_size (box_add cfg k s) = ta_size s"
  by (simp_all add: box_add_def Let_def)

lemma fold_box_add_frame:
  "mem (fold (box_add cfg) ks s) = mem s" "TBL (fold (box_add cfg) ks s) = TBL s"
  "TBL_P (fold (box_add cfg) ks s) = TBL_P s" "ExFF (fold (box_add cfg) ks s) = ExFF s"
  "Check (fold (box_add cfg) ks s) = Check s" "ExTBL (fold (box_add cfg) ks s) = ExTBL s"
  "Excount (fold (box_add cfg) ks s) = Excount s"
  "isFirstExtrp (fold (box_add cfg) ks s) = isFirstExtrp s"
  "isExtrapolate (fold (box_add cfg) ks s) = isExtrapolate s" "TB (fold (box_add cfg) ks s) = TB s"
  "ExBD (fold (box_add cfg) ks s) = ExBD s" "ta_size (fold (box_add cfg) ks s) = ta_size s"
  by (induction ks arbitrary: s; simp add: box_add_frame)+

lemma fold_box_add_TAMask:
  "TAMask (fold (box_add cfg) ks s) k = (TAMask s k \<or> k \<in> set ks)"
  by (induction ks arbitrary: s) (auto simp: box_add_def Let_def)

lemma first_pass_body_frame:
  "TBL (first_pass_body cfg s) = TBL s" "TBL_P (first_pass_body cfg s) = TBL_P s"
  "ExFF (first_pass_body cfg s) = ExFF s" "Check (first_pass_body cfg s) = Check s"
  "Excount (first_pass_body cfg s) = Excount s" "isFirstExtrp (first_pass_body cfg s) = False"
  "isExtrapolate (first_pass_body cfg s) = isExtrapolate s" "TB (first_pass_body cfg s) = TB s"
  by (simp_all add: first_pass_body_def Let_def fold_box_add_frame)

lemma later_pass_body_frame:
  "TBL (later_pass_body cfg s) = TBL s" "TBL_P (later_pass_body cfg s) = TBL_P s"
  "ExFF (later_pass_body cfg s) = ExFF s" "Check (later_pass_body cfg s) = Check s"
  "Excount (later_pass_body cfg s) = Excount s" "isFirstExtrp (later_pass_body cfg s) = isFirstExtrp s"
  "isExtrapolate (later_pass_body cfg s) = isExtrapolate s" "TB (later_pass_body cfg s) = TB s"
  by (simp_all add: later_pass_body_def Let_def fold_box_add_frame)

lemma extrapolate_frame:
  assumes "extrapolate cfg s = Inr s'"
  shows "Excount s' = Excount s" "isFirstExtrp s' = isFirstExtrp s" "TBL_P s' = TBL_P s"
    "isExtrapolate s' = isExtrapolate s" "TB s' = TB s" "TAMask s' = TAMask s"
    "set (TBL s') = set (TBL s)" "set (ExFF s') \<subseteq> set (ExFF s)"
    "ExFF s = [] \<Longrightarrow> s' = s"
    "x1_min s' = x1_min s" "x1_max s' = x1_max s" "x2_min s' = x2_min s" "x2_max s' = x2_max s"
proof -
  have *: "Excount s' = Excount s \<and> isFirstExtrp s' = isFirstExtrp s \<and> TBL_P s' = TBL_P s
    \<and> isExtrapolate s' = isExtrapolate s \<and> TB s' = TB s \<and> TAMask s' = TAMask s
    \<and> set (TBL s') = set (TBL s) \<and> set (ExFF s') \<subseteq> set (ExFF s) \<and> (ExFF s = [] \<longrightarrow> s' = s)
    \<and> x1_min s' = x1_min s \<and> x1_max s' = x1_max s \<and> x2_min s' = x2_min s \<and> x2_max s' = x2_max s"
  proof (cases "ExFF s = []")
    case True
    then show ?thesis using assms by (simp add: extrapolate_def)
  next
    case False
    have "set (sort_unique (set_difference (sort (ExFF s)) (sort (TBL s)))) \<subseteq> set (ExFF s)"
      using set_set_difference [of "sort (ExFF s)" "sort (TBL s)"] by (simp add: set_sort_unique)
    then show ?thesis using assms False
      by (auto simp: extrapolate_def Let_def split: sum.splits if_splits)
  qed
  then show "Excount s' = Excount s" "isFirstExtrp s' = isFirstExtrp s" "TBL_P s' = TBL_P s"
    "isExtrapolate s' = isExtrapolate s" "TB s' = TB s" "TAMask s' = TAMask s"
    "set (TBL s') = set (TBL s)" "set (ExFF s') \<subseteq> set (ExFF s)"
    "ExFF s = [] \<Longrightarrow> s' = s"
    "x1_min s' = x1_min s" "x1_max s' = x1_max s" "x2_min s' = x2_min s" "x2_max s' = x2_max s"
    by simp_all
qed

lemma rebuild_TBL_frame:
  "ExFF (rebuild_TBL cfg s) = ExFF s" "Excount (rebuild_TBL cfg s) = Excount s + 1"
  "isFirstExtrp (rebuild_TBL cfg s) = isFirstExtrp s" "mem (rebuild_TBL cfg s) = mem s"
  "TAMask (rebuild_TBL cfg s) = TAMask s"
  "Excount s + 1 = ExLimit cfg \<Longrightarrow> TBL (rebuild_TBL cfg s) = []"
  "set (TBL (rebuild_TBL cfg s)) \<subseteq> set (filter (spreading cfg s) (checked (ExFF s) (Check s)))"
proof -
  have "set (set_difference (sort (filter (spreading cfg s) (checked (ExFF s) (Check s)))) (sort (TBL_P s)))
        \<subseteq> set (filter (spreading cfg s) (checked (ExFF s) (Check s)))"
    using set_set_difference [of "sort (filter (spreading cfg s) (checked (ExFF s) (Check s)))" "sort (TBL_P s)"]
    by simp
  then show "set (TBL (rebuild_TBL cfg s)) \<subseteq> set (filter (spreading cfg s) (checked (ExFF s) (Check s)))"
    by (simp add: rebuild_TBL_def Let_def)
qed (simp_all add: rebuild_TBL_def Let_def)

lemma ex_pass_unfold:
  "ex_pass cfg s =
     (case extrapolate cfg (pass_start cfg s) of
        Inl e \<Rightarrow> Inl e
      | Inr s2 \<Rightarrow> Inr (if ExFF (pass_mid cfg s2) \<noteq> [] then rebuild_TBL cfg (pass_mid cfg s2)
                       else pass_mid cfg s2))"
  by (simp add: ex_pass_def Let_def pass_mid_def pass_start_def split: sum.split)

lemma pass_mid_frame:
  "ExFF (pass_mid cfg s2) = ExFF s2" "Excount (pass_mid cfg s2) = Excount s2"
  "isFirstExtrp (pass_mid cfg s2) = False" "Check (pass_mid cfg s2) = Check s2"
  by (simp_all add: pass_mid_def first_pass_body_frame later_pass_body_frame)

lemma ex_pass_Inr:
  assumes "ex_pass cfg s = Inr s'"
  obtains s2 where "extrapolate cfg (pass_start cfg s) = Inr s2"
    and "s' = (if ExFF s2 \<noteq> [] then rebuild_TBL cfg (pass_mid cfg s2) else pass_mid cfg s2)"
  using assms by (auto simp: ex_pass_unfold pass_mid_frame split: sum.splits)

text \<open>The three kinds of pass.\<close>

lemma ex_pass_cases:
  assumes "ex_pass cfg s = Inr s'"
  shows "isFirstExtrp s' = False"
    and "Excount s' = Excount s + (if ExFF s' \<noteq> [] then 1 else 0)"
    and "ExFF s' \<noteq> [] \<Longrightarrow> Excount s' = ExLimit cfg \<Longrightarrow> TBL s' = []"
    and "ExFF s' = [] \<Longrightarrow> \<not> isFirstExtrp s \<Longrightarrow> TBL s' = []"
    and "ExFF s' = [] \<Longrightarrow> isFirstExtrp s \<Longrightarrow> TBL s' = sort_unique (TBL s)"
proof -
  from assms obtain s2 where e: "extrapolate cfg (pass_start cfg s) = Inr s2"
    and s': "s' = (if ExFF s2 \<noteq> [] then rebuild_TBL cfg (pass_mid cfg s2) else pass_mid cfg s2)"
    by (rule ex_pass_Inr)
  note f = extrapolate_frame [OF e]
  have c: "Excount s2 = Excount s" using f(1) by (simp add: pass_start_def)
  have i: "isFirstExtrp s2 = isFirstExtrp s" using f(2) by (simp add: pass_start_def)
  have x: "ExFF s' = ExFF s2" by (simp add: s' rebuild_TBL_frame pass_mid_frame)
  show "isFirstExtrp s' = False" by (simp add: s' rebuild_TBL_frame pass_mid_frame)
  show "Excount s' = Excount s + (if ExFF s' \<noteq> [] then 1 else 0)"
    unfolding x by (simp add: s' rebuild_TBL_frame pass_mid_frame c)
  show "TBL s' = []" if "ExFF s' \<noteq> []" "Excount s' = ExLimit cfg"
    using that unfolding x by (simp add: s' rebuild_TBL_frame pass_mid_frame)
  show "TBL s' = []" if "ExFF s' = []" "\<not> isFirstExtrp s"
    using that i unfolding x by (simp add: s' pass_mid_def)
  show "TBL s' = sort_unique (TBL s)" if n: "ExFF s' = []" and "isFirstExtrp s"
  proof -
    have "ExFF s2 = []" using n x by simp
    have "TBL s2 = sort_unique (TBL s)"
    proof (cases "ExFF (pass_start cfg s) = []")
      case True
      then show ?thesis using f(9) by (simp add: pass_start_def)
    next
      case False
      then have "TBL s2 = sort (TBL (pass_start cfg s))"
        using e by (auto simp: extrapolate_def Let_def split: sum.splits if_splits)
      moreover have "sort (sort_unique (TBL s)) = sort_unique (TBL s)"
        by (simp add: sort_unique_def sorted_sort_id)
      ultimately show ?thesis by (simp add: pass_start_def)
    qed
    then show ?thesis using that i \<open>ExFF s2 = []\<close>
      by (simp add: s' pass_mid_def first_pass_body_frame)
  qed
qed

section \<open>The extrapolation loop\<close>

text \<open>The \<^verbatim>\<open>while\<close> loop of CASE 1 as a recursive function. It is total: every pass made
  with the loop condition true decreases \<open>loop_measure\<close>.\<close>

lemma ex_pass_decreases:
  assumes "loop_cond cfg s" "ex_pass cfg s = Inr s'"
  shows "loop_measure (cfg, s') < loop_measure (cfg, s)"
proof -
  note c = ex_pass_cases [OF assms(2)]
  have pos: "Excount s < ExLimit cfg" "TBL s \<noteq> []" using assms(1) by (simp_all add: loop_cond_def)
  show ?thesis
  proof (cases "ExFF s' \<noteq> []")
    case True
    then have e: "Excount s' = Excount s + 1" using c(2) by simp
    have "nat (ExLimit cfg - Excount s') + 1 \<le> nat (ExLimit cfg - Excount s)"
      using pos e by simp
    then show ?thesis using pos c(1) by (simp add: loop_measure_def)
  next
    case False
    show ?thesis
    proof (cases "isFirstExtrp s")
      case True
      have "Excount s' = Excount s" using c(2) False by simp
      then show ?thesis using pos c(1) True by (simp add: loop_measure_def)
    next
      case F: False
      then have "TBL s' = []" using c(4) False by simp
      then show ?thesis using pos by (simp add: loop_measure_def)
    qed
  qed
qed

function ex_loop :: "config \<Rightarrow> state \<Rightarrow> fault + state" where
  "ex_loop cfg s =
     (if loop_cond cfg s then
        (case ex_pass cfg s of Inl e \<Rightarrow> Inl e | Inr s' \<Rightarrow> ex_loop cfg s')
      else Inr s)"
  by pat_completeness auto
termination
proof (relation "measure loop_measure")
  show "wf (measure loop_measure)" by simp
next
  fix cfg s s'
  assume "loop_cond cfg s" "ex_pass cfg s = Inr s'"
  then show "((cfg, s'), (cfg, s)) \<in> measure loop_measure"
    using ex_pass_decreases by simp
qed

declare ex_loop.simps [simp del]

text \<open>One iteration of the time loop, \<open>n\<close> iterations, and \<^verbatim>\<open>Evolve\<close> with
  \<open>n = (int)(TIME / kk)\<close> iterations.\<close>

definition step :: "config \<Rightarrow> state \<Rightarrow> fault + state" where
  "step cfg s =
     (case ex_loop cfg (step_head cfg s) of
        Inl e \<Rightarrow> Inl e
      | Inr s' \<Rightarrow> finish_step cfg (case_update cfg s'))"

fun steps :: "nat \<Rightarrow> config \<Rightarrow> state \<Rightarrow> fault + state" where
  "steps 0 cfg s = Inr s"
| "steps (Suc n) cfg s = (case step cfg s of Inl e \<Rightarrow> Inl e | Inr s' \<Rightarrow> steps n cfg s')"

definition Evolve :: "config \<Rightarrow> nat \<Rightarrow> fault + state" where
  "Evolve cfg n = (case Evolve_init cfg of Inl e \<Rightarrow> Inl e | Inr s \<Rightarrow> steps n cfg s)"

lemma ex_loop_exit: "ex_loop cfg s = Inr s' \<Longrightarrow> \<not> loop_cond cfg s'"
proof (induction cfg s rule: ex_loop.induct)
  case (1 cfg s)
  show ?case
  proof (cases "loop_cond cfg s")
    case False
    then show ?thesis using "1.prems" by (simp add: ex_loop.simps)
  next
    case True
    then show ?thesis using 1 by (auto simp: ex_loop.simps [of cfg s] split: sum.splits)
  qed
qed

lemma ex_loop_Excount:
  "ex_loop cfg s = Inr s' \<Longrightarrow> Excount s \<le> Excount s' \<and> Excount s' \<le> max (Excount s) (ExLimit cfg)"
proof (induction cfg s rule: ex_loop.induct)
  case (1 cfg s)
  show ?case
  proof (cases "loop_cond cfg s")
    case False
    then show ?thesis using "1.prems" by (simp add: ex_loop.simps)
  next
    case True
    then obtain s1 where p: "ex_pass cfg s = Inr s1" and l: "ex_loop cfg s1 = Inr s'"
      using "1.prems" by (auto simp: ex_loop.simps [of cfg s] split: sum.splits)
    have c: "Excount s1 = Excount s + (if ExFF s1 \<noteq> [] then 1 else 0)" using ex_pass_cases(2) [OF p] .
    have "Excount s < ExLimit cfg" using True by (simp add: loop_cond_def)
    then show ?thesis using "1.IH" [OF True p l] c by (auto split: if_splits)
  qed
qed

lemma targets_edge: "ExFF_targets cfg_small A [24] = []"
  by (simp add: ExFF_targets_def targets_of_def Let_def cfg_small_def M1_def W1_def sdiv_24_7)

lemma ex_pass_edge:
  assumes "TBL s = [24]"
  obtains s' where "ex_pass cfg_small s = Inr s'" "ExFF s' = []"
proof -
  have p: "ExFF (pass_start cfg_small s) = []"
    by (simp add: pass_start_def assms sort_unique_def targets_edge)
  then have "extrapolate cfg_small (pass_start cfg_small s) = Inr (pass_start cfg_small s)"
    by (simp add: extrapolate_def)
  then have "ex_pass cfg_small s = Inr (pass_mid cfg_small (pass_start cfg_small s))"
    "ExFF (pass_mid cfg_small (pass_start cfg_small s)) = []"
    using p by (simp_all add: ex_pass_unfold pass_mid_frame)
  then show ?thesis using that by blast
qed

section \<open>The frontier stays strictly inside the edge-free interior\<close>

lemma accum_of_reads:
  assumes "\<forall>c \<in> set (extrap_reads cfg k). A (idx cfg c) = B (idx cfg c)"
  shows "accum_of cfg A k = accum_of cfg B k"
  using assms by (simp add: accum_of_def extrap_reads_def Let_def idx_def)

lemma GridToIdx_encode:
  assumes "0 \<le> i" "0 \<le> j" "j < M1 cfg"
  shows "GridToIdx cfg i j sdiv M1 cfg = i" "GridToIdx cfg i j smod M1 cfg = j"
proof -
  have m: "0 < M1 cfg" using assms by simp
  have k: "0 \<le> i * M1 cfg + j" using assms m by simp
  have d: "(i * M1 cfg + j) div M1 cfg = i" using assms m by simp
  have r: "(i * M1 cfg + j) mod M1 cfg = j" using assms m by simp
  show "GridToIdx cfg i j sdiv M1 cfg = i"
  proof (cases "i * M1 cfg + j = 0")
    case True
    then have "i = 0" using d by simp
    then show ?thesis using True by (simp add: GridToIdx_def W1_def M1_def signed_divide_int_def)
  next
    case False
    then have "sgn (i * M1 cfg + j) = 1" using k by (simp add: sgn_if)
    then show ?thesis using m k d
      by (simp add: GridToIdx_def W1_def M1_def [symmetric] signed_divide_int_def sgn_if)
  qed
  show "GridToIdx cfg i j smod M1 cfg = j"
  proof (cases "i * M1 cfg + j = 0")
    case True
    then have "j = 0" using r by simp
    then show ?thesis using True by (simp add: GridToIdx_def W1_def M1_def signed_modulo_int_def)
  next
    case False
    then have "sgn (i * M1 cfg + j) = 1" using k by (simp add: sgn_if)
    then show ?thesis using m k r
      by (simp add: GridToIdx_def W1_def M1_def [symmetric] signed_modulo_int_def sgn_if)
  qed
qed

lemma strict_interior_encode:
  assumes "0 \<le> EDGE cfg" "EDGE cfg < i" "EDGE cfg < j"
    "i < BoxShape0 cfg - EDGE cfg - 1" "j < BoxShape1 cfg - EDGE cfg - 1"
  shows "strict_interior cfg (GridToIdx cfg i j)"
proof -
  have "0 \<le> i" "0 \<le> j" "j < M1 cfg" using assms by (simp_all add: M1_def)
  note e = GridToIdx_encode [OF this]
  show ?thesis unfolding strict_interior_def Let_def e using assms by simp
qed

lemma targets_of_interior:
  assumes "0 \<le> EDGE cfg" "strict_interior cfg k0" "k \<in> set (targets_of cfg A k0)"
  shows "strict_interior cfg k"
proof -
  define g1 where "g1 = k0 sdiv M1 cfg"
  define g2 where "g2 = k0 smod M1 cfg"
  have i: "EDGE cfg < g1" "EDGE cfg < g2" "g1 < BoxShape0 cfg - EDGE cfg - 1"
    "g2 < BoxShape1 cfg - EDGE cfg - 1"
    using assms(2) by (simp_all add: strict_interior_def Let_def g1_def g2_def)
  from assms(3) consider
    (a) "k = GridToIdx cfg (g1 - 1) g2" "g1 - 1 > EDGE cfg"
  | (b) "k = GridToIdx cfg (g1 + 1) g2" "g1 + 1 < BoxShape0 cfg - EDGE cfg - 1"
  | (c) "k = GridToIdx cfg g1 (g2 - 1)" "g2 - 1 > EDGE cfg"
  | (d) "k = GridToIdx cfg g1 (g2 + 1)" "g2 + 1 < BoxShape1 cfg - EDGE cfg - 1"
    unfolding targets_of_def Let_def g1_def [symmetric] g2_def [symmetric]
    by (auto split: if_splits)
  then show ?thesis
  proof cases
    case a
    show ?thesis unfolding a(1) by (rule strict_interior_encode) (use assms(1) i a(2) in simp_all)
  next
    case b
    show ?thesis unfolding b(1) by (rule strict_interior_encode) (use assms(1) i b(2) in simp_all)
  next
    case c
    show ?thesis unfolding c(1) by (rule strict_interior_encode) (use assms(1) i c(2) in simp_all)
  next
    case d
    show ?thesis unfolding d(1) by (rule strict_interior_encode) (use assms(1) i d(2) in simp_all)
  qed
qed

lemma ExFF_targets_interior:
  assumes "0 \<le> EDGE cfg" "list_all (strict_interior cfg) tbl" "k \<in> set (ExFF_targets cfg A tbl)"
  shows "strict_interior cfg k"
  using assms targets_of_interior by (auto simp: ExFF_targets_def list_all_iff)

lemma build_TBL_interior: "list_all (strict_interior cfg) (TBL (build_TBL cfg s))"
  by (auto simp: build_TBL_def Let_def list_all_iff leaking_def strict_interior_def)

lemma set_checked: "set (checked ex chk) \<subseteq> set ex"
  by (auto simp: checked_def dest: set_zip_leftD)

lemma pass_mid_TBL: "set (TBL (pass_mid cfg s2)) \<subseteq> set (TBL s2)"
  by (simp add: pass_mid_def first_pass_body_frame later_pass_body_frame)

lemma ex_pass_interior:
  assumes "0 \<le> EDGE cfg" "list_all (strict_interior cfg) (TBL s)" "ex_pass cfg s = Inr s'"
  shows "list_all (strict_interior cfg) (TBL s')"
proof -
  from assms(3) obtain s2 where e: "extrapolate cfg (pass_start cfg s) = Inr s2"
    and s': "s' = (if ExFF s2 \<noteq> [] then rebuild_TBL cfg (pass_mid cfg s2) else pass_mid cfg s2)"
    by (rule ex_pass_Inr)
  note f = extrapolate_frame [OF e]
  have t: "set (TBL s2) = set (TBL s)" using f(7) by (simp add: pass_start_def set_sort_unique)
  have su: "list_all (strict_interior cfg) (sort_unique (TBL s))"
    using assms(2) by (simp add: list_all_iff set_sort_unique)
  have x: "strict_interior cfg k" if "k \<in> set (ExFF s2)" for k
  proof -
    have "k \<in> set (ExFF_targets cfg (mem s F) (sort_unique (TBL s)))"
      using that f(8) by (auto simp: pass_start_def)
    then show ?thesis using ExFF_targets_interior [OF assms(1) su] by blast
  qed
  show ?thesis
  proof (cases "ExFF s2 \<noteq> []")
    case True
    have "set (TBL s') \<subseteq> set (ExFF s2)"
      using rebuild_TBL_frame(7) [of cfg "pass_mid cfg s2"] set_checked [of "ExFF s2" "Check s2"] True
      by (auto simp: s' pass_mid_frame)
    then show ?thesis using x by (auto simp: list_all_iff)
  next
    case False
    then have "set (TBL s') \<subseteq> set (TBL s)" using pass_mid_TBL [of cfg s2] t by (simp add: s')
    then show ?thesis using assms(2) by (auto simp: list_all_iff)
  qed
qed

lemma loop_reach_interior:
  assumes "0 \<le> EDGE cfg" "loop_reach cfg (build_TBL cfg s0) s"
  shows "list_all (strict_interior cfg) (TBL s)"
  using assms(2)
proof (induction rule: loop_reach.induct)
  case start
  show ?case by (rule build_TBL_interior)
next
  case (pass s1 s2)
  show ?case by (rule ex_pass_interior [OF assms(1) pass.IH pass.hyps(3)])
qed

lemma extrap_reads_in_grid:
  assumes "1 \<le> EDGE cfg" "strict_interior cfg k"
  shows "list_all (in_grid cfg) (extrap_reads cfg k)"
  using assms by (simp add: strict_interior_def extrap_reads_def in_grid_def Let_def)


lemma sdiv_31_9: "(31::int) sdiv 9 = 3" "(31::int) smod 9 = 4"
  by (simp_all add: signed_divide_int_def signed_modulo_int_def)

lemma build_TBL_tail: "TBL (build_TBL cfg_fine state_tail) = [31, 40]"
  by (simp add: build_TBL_def Let_def leaking_def state_tail_def state_zero_def M1_fine sdiv_9 sdiv_31_9
      GridToIdx_def)
     (simp add: cfg_fine_def cfg_small_def)

lemma build_TBL_edge: "TBL (build_TBL cfg_small state_edge) = [24]"
  by (simp add: build_TBL_def Let_def leaking_def state_edge_def state_one_cell_def state_zero_def
      M1_def W1_def sdiv_24_7 GridToIdx_def cfg_small_def)

section \<open>Field and mask in the extrapolation loop\<close>

lemma assign_F_changed:
  "assign_F ex rs A k \<noteq> A k \<Longrightarrow> k \<in> set (map fst (filter (\<lambda>kr. fst (snd kr)) (zip ex rs)))"
proof -
  have "\<And>B. fold (\<lambda>kr B. if fst (snd kr) then B(fst kr := snd (snd kr)) else B) zs B k \<noteq> B k
        \<Longrightarrow> k \<in> set (map fst (filter (\<lambda>kr. fst (snd kr)) zs))" for zs :: "(int \<times> bool \<times> real) list"
  proof (induction zs)
    case Nil
    then show ?case by simp
  next
    case (Cons z zs)
    show ?case
    proof (cases "fst (snd z) \<and> fst z = k")
      case True
      then show ?thesis by simp
    next
      case False
      then have "(if fst (snd z) then B(fst z := snd (snd z)) else B) k = B k" by auto
      then have "fold (\<lambda>kr B. if fst (snd kr) then B(fst kr := snd (snd kr)) else B) zs
                   (if fst (snd z) then B(fst z := snd (snd z)) else B) k
                 \<noteq> (if fst (snd z) then B(fst z := snd (snd z)) else B) k"
        using Cons.prems by simp
      from Cons.IH [OF this] show ?thesis by auto
    qed
  qed
  then show "assign_F ex rs A k \<noteq> A k \<Longrightarrow> k \<in> set (map fst (filter (\<lambda>kr. fst (snd kr)) (zip ex rs)))"
    unfolding assign_F_def by blast
qed

lemma extrapolate_changed:
  assumes "extrapolate cfg s = Inr s'" "mem s' F k \<noteq> mem s F k"
  shows "k \<in> set (checked (ExFF s') (Check s'))"
proof (cases "ExFF s = []")
  case True
  then show ?thesis using assms by (simp add: extrapolate_def)
next
  case False
  from extrapolate_mem [OF False assms(1)] obtain rs where
    m: "mem s' = (mem s)(F := assign_F (ex_list s) rs (mem s F))"
    and c: "checked (ExFF s') (Check s') = map fst (filter (\<lambda>kr. fst (snd kr)) (zip (ex_list s) rs))"
    by blast
  have "assign_F (ex_list s) rs (mem s F) k \<noteq> mem s F k" using assms(2) by (simp add: m)
  then show ?thesis unfolding c by (rule assign_F_changed)
qed

lemma first_pass_body_F: "mem (first_pass_body cfg s) F = mem s F"
proof -
  have "fold (\<lambda>i1 st. put st Density i1 0) rows st F = st F" for rows :: "int list" and st :: store
    by (rule fold_frame) (simp add: put_buf)
  then show ?thesis
    by (simp add: first_pass_body_def Let_def rk4_frame moments_feq_trunc_frame fold_box_add_frame)
qed

lemma later_pass_body_F: "mem (later_pass_body cfg s) F = mem s F"
  by (simp add: later_pass_body_def Let_def rk4_frame feq_ExBD_frame fold_box_add_frame)

lemma grow_first_self: "k \<in> set (grow_first cfg msk k)"
  by (simp add: grow_first_def Let_def GridToIdx_decode)

lemma grow_later_self: "\<not> msk k \<Longrightarrow> k \<in> set (grow_later cfg msk k)"
  by (simp add: grow_later_def Let_def GridToIdx_decode)

lemma first_pass_body_TAMask:
  "TAMask (first_pass_body cfg s) k \<longleftrightarrow>
     TAMask s k \<or> k \<in> set (concat (map (grow_first cfg (TAMask s)) (checked (ExFF s) (Check s))))"
  by (simp add: first_pass_body_def Let_def fold_box_add_TAMask)

lemma later_pass_body_TAMask:
  "TAMask (later_pass_body cfg s) k \<longleftrightarrow>
     TAMask s k \<or> k \<in> set (concat (map (grow_later cfg (TAMask s)) (checked (ExFF s) (Check s))))"
  by (simp add: later_pass_body_def Let_def fold_box_add_TAMask)

lemma pass_mid_grows:
  shows "mem (pass_mid cfg s2) F = mem s2 F"
    and "TAMask s2 k \<Longrightarrow> TAMask (pass_mid cfg s2) k"
    and "k \<in> set (checked (ExFF s2) (Check s2)) \<Longrightarrow> TAMask (pass_mid cfg s2) k"
proof -
  show "mem (pass_mid cfg s2) F = mem s2 F"
    by (simp add: pass_mid_def first_pass_body_F later_pass_body_F)
  show "TAMask s2 k \<Longrightarrow> TAMask (pass_mid cfg s2) k"
    by (simp add: pass_mid_def first_pass_body_TAMask later_pass_body_TAMask)
  show "TAMask (pass_mid cfg s2) k" if k: "k \<in> set (checked (ExFF s2) (Check s2))"
  proof (cases "isFirstExtrp s2")
    case True
    then show ?thesis using k grow_first_self [of k cfg "TAMask s2"]
      by (auto simp: pass_mid_def first_pass_body_TAMask)
  next
    case False
    have ne: "ExFF s2 \<noteq> []" using k by (auto simp: checked_def)
    show ?thesis
    proof (cases "TAMask s2 k")
      case True
      then show ?thesis using False ne by (simp add: pass_mid_def later_pass_body_TAMask)
    next
      case F: False
      then show ?thesis using False ne k grow_later_self [of "TAMask s2" k cfg]
        by (auto simp: pass_mid_def later_pass_body_TAMask)
    qed
  qed
qed

lemma ex_pass_consistent:
  assumes "mask_consistent s" "ex_pass cfg s = Inr s'"
  shows "mask_consistent s'"
proof -
  from assms(2) obtain s2 where e: "extrapolate cfg (pass_start cfg s) = Inr s2"
    and s': "s' = (if ExFF s2 \<noteq> [] then rebuild_TBL cfg (pass_mid cfg s2) else pass_mid cfg s2)"
    by (rule ex_pass_Inr)
  have m: "mem s' F = mem s2 F" by (simp add: s' rebuild_TBL_frame pass_mid_grows(1))
  have t: "TAMask s' = TAMask (pass_mid cfg s2)" by (simp add: s' rebuild_TBL_frame)
  have t2: "TAMask s2 = TAMask s" using extrapolate_frame(6) [OF e] by (simp add: pass_start_def)
  show ?thesis unfolding mask_consistent_def
  proof (intro allI impI)
    fix k assume n: "\<not> TAMask s' k"
    then have a: "\<not> TAMask s k" using pass_mid_grows(2) [of s2 k cfg] t t2 by auto
    have "k \<notin> set (checked (ExFF s2) (Check s2))" using pass_mid_grows(3) [of k s2 cfg] n t by auto
    then have "mem s2 F k = mem (pass_start cfg s) F k" using extrapolate_changed [OF e, of k] by blast
    then show "mem s' F k = 0" using assms(1) a by (simp add: m pass_start_def mask_consistent_def)
  qed
qed

lemma ex_loop_consistent:
  "mask_consistent s \<Longrightarrow> ex_loop cfg s = Inr s' \<Longrightarrow> mask_consistent s'"
proof (induction cfg s rule: ex_loop.induct)
  case (1 cfg s)
  show ?case
  proof (cases "loop_cond cfg s")
    case False
    then show ?thesis using "1.prems" by (simp add: ex_loop.simps)
  next
    case True
    then obtain s1 where p: "ex_pass cfg s = Inr s1" and l: "ex_loop cfg s1 = Inr s'"
      using "1.prems" by (auto simp: ex_loop.simps [of cfg s] split: sum.splits)
    show ?thesis by (rule "1.IH" [OF True p ex_pass_consistent [OF "1.prems"(1) p] l])
  qed
qed

section \<open>The number of passes of the extrapolation loop\<close>

lemma sort_unique_Nil: "sort_unique xs = [] \<longleftrightarrow> xs = []"
proof -
  have "sort xs = [] \<longleftrightarrow> xs = []" by (metis length_0_conv length_sort)
  then show ?thesis by (simp add: sort_unique_def)
qed

lemma sort_unique_idem: "sort_unique (sort_unique xs) = sort_unique xs"
proof -
  have s: "sorted (sort_unique xs)" by (simp add: sort_unique_def)
  have d: "distinct (sort_unique xs)" by (rule distinct_sort_unique)
  have "sort (sort_unique xs) = sort_unique xs" using s by (simp add: sorted_sort_id)
  moreover have "remdups_adj (sort_unique xs) = sort_unique xs"
    using d by (rule remdups_adj_distinct)
  ultimately show ?thesis by (simp add: sort_unique_def [of "sort_unique xs"])
qed

text \<open>The targets that the extrapolation keeps depend on the target list, the frontier and
  the field only.\<close>

lemma extrapolate_ExFF_cong:
  assumes "ExFF p1 = ExFF p0" "TBL p1 = TBL p0" "mem p1 F = mem p0 F"
    and "extrapolate cfg p0 = Inr t0"
  obtains t1 where "extrapolate cfg p1 = Inr t1" "ExFF t1 = ExFF t0"
proof (cases "ExFF p0 = []")
  case True
  then have "extrapolate cfg p1 = Inr p1" "ExFF p1 = ExFF t0"
    using assms by (auto simp: extrapolate_def)
  then show ?thesis using that by blast
next
  case False
  let ?ex = "sort_unique (set_difference (sort (ExFF p0)) (sort (TBL p0)))"
  from assms(4) False obtain rs where
    c: "collect (map (extrap_target cfg (mem p0 F)) ?ex) = Inr rs"
    by (auto simp: extrapolate_def Let_def split: sum.splits)
  have x0: "ExFF t0 = (if length (filter fst rs) = 0 then [] else ?ex)"
    using assms(4) False c by (auto simp: extrapolate_def Let_def split: if_splits)
  have "\<exists>t1. extrapolate cfg p1 = Inr t1
          \<and> ExFF t1 = (if length (filter fst rs) = 0 then [] else ?ex)"
    using False c assms(1-3) by (cases "filter fst rs = []") (simp_all add: extrapolate_def Let_def)
  then show ?thesis using that x0 by auto
qed

lemma ex_pass_unproductive_first:
  assumes "isFirstExtrp s" "ex_pass cfg s = Inr s1" "ExFF s1 = []"
  obtains s2 where "ex_pass cfg s1 = Inr s2" "ExFF s2 = []"
proof -
  from assms(2) obtain t0 where e: "extrapolate cfg (pass_start cfg s) = Inr t0"
    and s1: "s1 = (if ExFF t0 \<noteq> [] then rebuild_TBL cfg (pass_mid cfg t0) else pass_mid cfg t0)"
    by (rule ex_pass_Inr)
  have x0: "ExFF t0 = []" using assms(3) by (simp add: s1 rebuild_TBL_frame pass_mid_frame split: if_splits)
  then have s1': "s1 = pass_mid cfg t0" by (simp add: s1)
  have "mem t0 F k = mem (pass_start cfg s) F k" for k
    using extrapolate_changed [OF e, of k] x0 by (auto simp: checked_def)
  then have f: "mem s1 F = mem s F"
    by (simp add: s1' pass_mid_grows(1) fun_eq_iff pass_start_def)
  have t: "TBL s1 = sort_unique (TBL s)" by (rule ex_pass_cases(5) [OF assms(2,3,1)])
  have a: "ExFF (pass_start cfg s1) = ExFF (pass_start cfg s)"
    "TBL (pass_start cfg s1) = TBL (pass_start cfg s)"
    "mem (pass_start cfg s1) F = mem (pass_start cfg s) F"
    by (simp_all add: pass_start_def t f sort_unique_idem)
  from extrapolate_ExFF_cong [OF a e] obtain t1 where
    t1: "extrapolate cfg (pass_start cfg s1) = Inr t1" "ExFF t1 = ExFF t0" by blast
  have "ex_pass cfg s1 = Inr (pass_mid cfg t1)" "ExFF (pass_mid cfg t1) = []"
    using t1 x0 by (simp_all add: ex_pass_unfold pass_mid_frame)
  then show ?thesis using that by blast
qed

text \<open>The number of passes from a state after the first pass of the step.\<close>

lemma ex_loop_fuel_later:
  "\<not> isFirstExtrp s \<Longrightarrow> nat (ExLimit cfg - Excount s) \<le> n \<Longrightarrow>
   ex_loop_fuel n cfg s = Some (ex_loop cfg s)"
proof (induction cfg s arbitrary: n rule: ex_loop.induct)
  case (1 cfg s)
  show ?case
  proof (cases "loop_cond cfg s")
    case False
    then show ?thesis by (cases n) (simp_all add: ex_loop.simps)
  next
    case True
    then have pos: "Excount s < ExLimit cfg" by (simp add: loop_cond_def)
    then obtain n' where n: "n = Suc n'" using "1.prems"(2) by (cases n) auto
    show ?thesis
    proof (cases "ex_pass cfg s")
      case (Inl e)
      then show ?thesis using True by (simp add: n ex_loop.simps)
    next
      case (Inr s')
      note c = ex_pass_cases [OF Inr]
      have "ex_loop_fuel n' cfg s' = Some (ex_loop cfg s')"
      proof (cases "ExFF s' \<noteq> []")
        case T: True
        then have "Excount s' = Excount s + 1" using c(2) by simp
        then have "nat (ExLimit cfg - Excount s') \<le> n'" using "1.prems"(2) n pos by simp
        then show ?thesis using "1.IH" [OF True Inr] c(1) by simp
      next
        case F: False
        then have "TBL s' = []" using c(4) "1.prems"(1) by simp
        then have "\<not> loop_cond cfg s'" by (simp add: loop_cond_def)
        then show ?thesis by (cases n') (simp_all add: ex_loop.simps)
      qed
      then show ?thesis using True Inr by (simp add: n ex_loop.simps [of cfg s])
    qed
  qed
qed

text \<open>The number of passes from the start of a step.\<close>

lemma ex_loop_fuel_first:
  assumes "isFirstExtrp s" "max 2 (nat (ExLimit cfg - Excount s)) \<le> n"
  shows "ex_loop_fuel n cfg s = Some (ex_loop cfg s)"
proof (cases "loop_cond cfg s")
  case False
  then show ?thesis by (cases n) (simp_all add: ex_loop.simps)
next
  case True
  then have pos: "Excount s < ExLimit cfg" "TBL s \<noteq> []" by (simp_all add: loop_cond_def)
  obtain n' where n: "n = Suc (Suc n')" using assms(2) by (cases n; cases "n - 1") auto
  show ?thesis
  proof (cases "ex_pass cfg s")
    case (Inl e)
    then show ?thesis using True by (simp add: n ex_loop.simps)
  next
    case (Inr s1)
    note c = ex_pass_cases [OF Inr]
    have "ex_loop_fuel (Suc n') cfg s1 = Some (ex_loop cfg s1)"
    proof (cases "ExFF s1 \<noteq> []")
      case T: True
      then have "Excount s1 = Excount s + 1" using c(2) by simp
      then have "nat (ExLimit cfg - Excount s1) \<le> Suc n'" using assms(2) n pos by simp
      then show ?thesis using c(1) by (intro ex_loop_fuel_later) simp_all
    next
      case F: False
      then have x: "ExFF s1 = []" by simp
      from ex_pass_unproductive_first [OF assms(1) Inr x] obtain s2 where
        s2: "ex_pass cfg s1 = Inr s2" "ExFF s2 = []" by blast
      have "TBL s2 = []" using ex_pass_cases(4) [OF s2] c(1) by simp
      then have e: "\<not> loop_cond cfg s2" by (simp add: loop_cond_def)
      have l2: "ex_loop cfg s2 = Inr s2" using e by (simp add: ex_loop.simps)
      have f2: "ex_loop_fuel n' cfg s2 = Some (Inr s2)" using e by (cases n') simp_all
      show ?thesis
      proof (cases "loop_cond cfg s1")
        case True
        then show ?thesis using s2(1) l2 f2 by (simp add: ex_loop.simps [of cfg s1])
      next
        case False
        then show ?thesis by (simp add: ex_loop.simps)
      qed
    qed
    then show ?thesis using True Inr by (simp add: n ex_loop.simps [of cfg s])
  qed
qed

lemma ex_loop_fuel_tight:
  "ex_loop_fuel (if isFirstExtrp s then max 2 (nat (ExLimit cfg - Excount s))
                 else nat (ExLimit cfg - Excount s)) cfg s = Some (ex_loop cfg s)"
  using ex_loop_fuel_first [of s cfg] ex_loop_fuel_later [of s cfg] by simp

section \<open>Field and mask over a step and the initialization\<close>

lemma step_head_frame:
  "mem (step_head cfg s) = mem s" "TAMask (step_head cfg s) = TAMask s"
  by (simp_all add: step_head_def Let_def build_TBL_def)

lemma case_update_frame:
  "mem (case_update cfg s) F = mem s F" "TAMask (case_update cfg s) = TAMask s"
  by (simp_all add: case_update_def case2_def case3_def Let_def rk4_frame moments_feq_trunc_frame
      moments_feq_full_frame)

lemma live_cells_masked: "c \<in> set (live_cells cfg s) \<Longrightarrow> TAMask s (idx cfg c)"
  by (simp add: live_cells_def)

lemma normalize_consistent:
  assumes "\<not> isFullGrid cfg" "mask_consistent s" "normalize cfg s = Inr s'"
  shows "mask_consistent s'"
proof (cases "update_region cfg s = []")
  case True
  then show ?thesis using assms by (simp add: normalize_def Let_def)
next
  case False
  then have s': "s' = s\<lparr>mem := fold (scale_cell cfg (1 / norm_factor cfg s)) (update_region cfg s) (mem s)\<rparr>"
    using assms(3) by (auto simp: normalize_def Let_def split: if_splits)
  show ?thesis unfolding mask_consistent_def
  proof (intro allI impI)
    fix k assume n: "\<not> TAMask s' k"
    then have a: "\<not> TAMask s k" by (simp add: s')
    then have "k \<notin> idx cfg ` set (update_region cfg s)"
      using assms(1) live_cells_masked by (auto simp: update_region_def)
    then have "mem s' F k = mem s F k" by (simp add: s' fold_scale_off)
    then show "mem s' F k = 0" using assms(2) a by (simp add: mask_consistent_def)
  qed
qed

lemma mask_cell_consistent: "mask_consistent s \<Longrightarrow> mask_consistent (mask_cell cfg c s)"
  by (simp add: mask_consistent_def mask_cell_TAMask mask_cell_mem)

lemma update_mask_consistent: "mask_consistent s \<Longrightarrow> mask_consistent (update_mask cfg s)"
  unfolding update_mask_def by (rule fold_state_inv) (simp_all add: mask_cell_consistent)

lemma prune_cell_F: "prune_cell cfg msk c st F = st F"
  by (simp add: prune_cell_def Let_def put_buf)

lemma prune_PF_frame: "mem (prune_PF cfg s) F = mem s F" "TAMask (prune_PF cfg s) = TAMask s"
proof -
  show "mem (prune_PF cfg s) F = mem s F"
    unfolding prune_PF_def by simp (rule fold_frame, rule prune_cell_F)
qed (simp add: prune_PF_def)

lemma box_cell_frame: "mem (box_cell cfg c s) = mem s" "TAMask (box_cell cfg c s) = TAMask s"
  by (simp_all add: box_cell_def Let_def)

lemma rebuild_box_frame: "mem (rebuild_box cfg s) = mem s" "TAMask (rebuild_box cfg s) = TAMask s"
proof -
  have "mem (fold (box_cell cfg) cs t) = mem t \<and> TAMask (fold (box_cell cfg) cs t) = TAMask t" for cs t
    by (induction cs arbitrary: t) (simp_all add: box_cell_frame)
  then show "mem (rebuild_box cfg s) = mem s" "TAMask (rebuild_box cfg s) = TAMask s"
    by (simp_all add: rebuild_box_def)
qed

lemma build_TB_frame: "mem (build_TB cfg s) = mem s" "TAMask (build_TB cfg s) = TAMask s"
  by (simp_all add: build_TB_def)

lemma expand_TA_frame:
  "mem (expand_TA cfg s) = mem s" "TAMask s k \<Longrightarrow> TAMask (expand_TA cfg s) k"
  by (simp_all add: expand_TA_def Let_def fold_box_add_frame fold_box_add_TAMask)

lemma truncate_step_consistent:
  assumes "mask_consistent s"
  shows "mask_consistent (truncate_step cfg s)"
proof -
  have "mask_consistent (prune_PF cfg s)"
    using assms by (simp add: mask_consistent_def prune_PF_frame)
  then have u: "mask_consistent (update_mask cfg (prune_PF cfg s))" by (rule update_mask_consistent)
  let ?u = "update_mask cfg (prune_PF cfg s)"
  let ?b = "build_TB cfg (rebuild_box cfg ?u)"
  have b: "mem ?b = mem ?u" "TAMask ?b = TAMask ?u"
    by (simp_all add: build_TB_frame rebuild_box_frame)
  show ?thesis unfolding mask_consistent_def truncate_step_def
  proof (intro allI impI)
    fix k assume "\<not> TAMask (expand_TA cfg ?b) k"
    then have "\<not> TAMask ?u k" using expand_TA_frame(2) [of ?b k cfg] b(2) by auto
    then show "mem (expand_TA cfg ?b) F k = 0"
      using u by (simp add: expand_TA_frame(1) b(1) mask_consistent_def)
  qed
qed

lemma step_consistent:
  assumes "\<not> isFullGrid cfg" "mask_consistent s" "step cfg s = Inr s'"
  shows "mask_consistent s'"
proof -
  from assms(3) obtain s1 s2 where l: "ex_loop cfg (step_head cfg s) = Inr s1"
    and n: "normalize cfg (case_update cfg s1) = Inr s2" and s': "s' = truncate_step cfg s2"
    using assms(1) by (auto simp: step_def finish_step_def split: sum.splits)
  have "mask_consistent (step_head cfg s)"
    using assms(2) by (simp add: mask_consistent_def step_head_frame)
  then have "mask_consistent s1" using l by (rule ex_loop_consistent)
  then have "mask_consistent (case_update cfg s1)"
    by (simp add: mask_consistent_def case_update_frame)
  then have "mask_consistent s2" using n by (rule normalize_consistent [OF assms(1)])
  then show ?thesis unfolding s' by (rule truncate_step_consistent)
qed

lemma steps_consistent:
  "\<not> isFullGrid cfg \<Longrightarrow> mask_consistent s \<Longrightarrow> steps n cfg s = Inr s' \<Longrightarrow> mask_consistent s'"
proof (induction n arbitrary: s)
  case 0
  then show ?case by simp
next
  case (Suc n)
  from Suc.prems(3) obtain s1 where s1: "step cfg s = Inr s1" "steps n cfg s1 = Inr s'"
    by (auto split: sum.splits)
  show ?case by (rule Suc.IH [OF Suc.prems(1) step_consistent [OF Suc.prems(1,2) s1(1)] s1(2)])
qed

text \<open>After the mask update every cell of the bounding box is consistent, whatever the
  state before.\<close>

lemma update_mask_box:
  assumes "c \<in> set (box_cells (x1_min s) (x1_max s) (x2_min s) (x2_max s))"
    and "\<not> TAMask (update_mask cfg s) (idx cfg c)"
  shows "mem (update_mask cfg s) F (idx cfg c) = 0"
proof -
  have i: "idx cfg c \<in> idx cfg ` set (box_cells (x1_min s) (x1_max s) (x2_min s) (x2_max s))"
    using assms(1) by blast
  note f = fold_mask_cell [of "idx cfg c" cfg "box_cells (x1_min s) (x1_max s) (x2_min s) (x2_max s)" s]
  show ?thesis using f i assms(2) by (auto simp: update_mask_def)
qed

lemma moments_trunc_F: "moments_trunc cfg msk a b c d st F = st F"
  unfolding moments_trunc_def by (rule fold_frame) (rule put_moments_F)

lemma moments_full_F: "moments_full cfg st F = st F"
  unfolding moments_full_def by (rule fold_frame) (rule put_moments_F)

lemma init_moments_frame:
  "mem (init_moments cfg s) F = mem s F" "TAMask (init_moments cfg s) = TAMask s"
  "TB (init_moments cfg s) = TB s" "x1_min (init_moments cfg s) = x1_min s"
  "x1_max (init_moments cfg s) = x1_max s"
  by (simp_all add: init_moments_def moments_trunc_F moments_full_F)

lemma init_wave_off: "k \<notin> idx cfg ` set (interior_cells cfg) \<Longrightarrow> init_wave cfg st F k = st F k"
proof -
  have "k \<notin> idx cfg ` set cs \<Longrightarrow>
        fold (\<lambda>c st. put st F (idx cfg c) (WAVEFUNCTION cfg (xx1_of cfg (fst c)) (xx2_of cfg (snd c)))) cs st F k
        = st F k" for cs
    by (induction cs arbitrary: st) (simp_all add: put_apply)
  then show "k \<notin> idx cfg ` set (interior_cells cfg) \<Longrightarrow> init_wave cfg st F k = st F k"
    by (simp add: init_wave_def)
qed

lemma init_norm_cell_apply:
  "init_norm_cell cfg nrm c st b k =
     (if k = idx cfg c \<and> b \<in> {F, PF} then nrm * st F (idx cfg c) else st b k)"
  unfolding init_norm_cell_def Let_def put_def by auto

lemma fold_init_norm_off:
  "k \<notin> idx cfg ` set cs \<Longrightarrow> fold (init_norm_cell cfg nrm) cs st F k = st F k"
  by (induction cs arbitrary: st) (simp_all add: init_norm_cell_apply)

lemma init_normalize_off:
  assumes "init_normalize cfg st = Inr st'" "k \<notin> idx cfg ` set (interior_cells cfg)"
  shows "st' F k = st F k"
  using assms by (auto simp: init_normalize_def Let_def fold_init_norm_off split: if_splits)

lemma init_trunc_cell_F: "mem (init_trunc_cell cfg c s) F = mem s F"
  by (simp add: init_trunc_cell_def Let_def put_buf)

lemma fold_init_trunc_F: "mem (fold (init_trunc_cell cfg) cs s) F = mem s F"
  by (induction cs arbitrary: s) (simp_all add: init_trunc_cell_F)

lemma init_scan_off:
  assumes "init_scan cfg = Inr s1" "k \<notin> idx cfg ` set (interior_cells cfg)"
  shows "mem s1 F k = 0"
proof -
  from assms(1) obtain st where n: "init_normalize cfg (init_wave cfg (mem state_zero)) = Inr st"
    and f: "mem s1 F = st F"
    by (auto simp: init_scan_def fold_init_trunc_F split: sum.splits if_splits)
  have "st F k = init_wave cfg (mem state_zero) F k" by (rule init_normalize_off [OF n assms(2)])
  also have "\<dots> = mem state_zero F k" by (rule init_wave_off [OF assms(2)])
  finally show ?thesis by (simp add: f state_zero_def)
qed

lemma fold_init_box_cell:
  "TAMask (fold (init_box_cell cfg) cs s) = TAMask s
   \<and> mem (fold (init_box_cell cfg) cs s) F k
       = (if k \<in> idx cfg ` set cs \<and> \<not> TAMask s k then 0 else mem s F k)"
proof (induction cs arbitrary: s)
  case Nil
  show ?case by simp
next
  case (Cons c cs)
  have t: "TAMask (init_box_cell cfg c s) = TAMask s" by (simp add: init_box_cell_def Let_def)
  have m: "mem (init_box_cell cfg c s) F k' = (if k' = idx cfg c \<and> \<not> TAMask s k' then 0 else mem s F k')"
    for k' by (auto simp: init_box_cell_def Let_def put_apply idx_def)
  show ?case using Cons.IH [of "init_box_cell cfg c s"] by (auto simp: t m)
qed

lemma init_ring_consistent:
  assumes "\<forall>k. k \<notin> idx cfg ` set (interior_cells cfg) \<longrightarrow> mem s1 F k = 0"
  shows "mask_consistent (init_ring cfg s1)"
proof -
  define s2 where "s2 = fold (init_box_cell cfg) (interior_cells cfg) s1"
  define s3 where "s3 = s2\<lparr>TB := map (idx cfg)
                          (filter (is_boundary cfg (TAMask s2))
                             (box_cells (x1_min s2) (x1_max s2) (x2_min s2) (x2_max s2)))\<rparr>"
  define tmpVec where "tmpVec = sort_unique (concat (map (grow_TB cfg (TAMask s3)) (TB s3)))"
  have r: "init_ring cfg s1 = (fold (box_add cfg) tmpVec s3)\<lparr>ta_size :=
             int (length (live_cells cfg (fold (box_add cfg) tmpVec s3)))\<rparr>"
    by (simp add: init_ring_def Let_def s2_def s3_def tmpVec_def)
  have c2: "\<not> TAMask s2 k \<Longrightarrow> mem s2 F k = 0" for k
    using fold_init_box_cell [of cfg "interior_cells cfg" s1 k] assms by (auto simp: s2_def)
  show ?thesis unfolding mask_consistent_def r
    using c2 by (simp add: fold_box_add_frame fold_box_add_TAMask s3_def)
qed

lemma init_finish_consistent:
  assumes "\<not> isFullGrid cfg" "init_scan cfg = Inr s1" "ta_size s1 \<noteq> 0"
  shows "mask_consistent (init_finish cfg s1)"
proof -
  have "mask_consistent (init_ring cfg s1)"
    by (rule init_ring_consistent) (use init_scan_off [OF assms(2)] in blast)
  then show ?thesis using assms(1,3)
    by (simp add: init_finish_def mask_consistent_def init_moments_frame)
qed

lemma Evolve_consistent:
  assumes "\<not> isFullGrid cfg" "init_scan cfg = Inr s1" "ta_size s1 \<noteq> 0" "Evolve cfg n = Inr s"
  shows "mask_consistent s"
proof -
  have "steps n cfg (init_finish cfg s1) = Inr s"
    using assms(2,4) by (simp add: Evolve_def Evolve_init_def)
  then show ?thesis
    by (rule steps_consistent [OF assms(1) init_finish_consistent [OF assms(1-3)]])
qed

section \<open>The copy PF outside the mask\<close>

text \<open>\<^verbatim>\<open>PF\<close> is written by the two normalizations, at live cells, and by the threshold
  tests, which store 0. Over the passes of the extrapolation loop and over the expansion of
  the mask the mask only grows. So a cell outside the mask holds \<open>PF = 0\<close> from the
  initialization on.\<close>

lemma extrapolate_PF:
  assumes "extrapolate cfg s = Inr s'"
  shows "mem s' PF = mem s PF"
proof (cases "ExFF s = []")
  case True
  then show ?thesis using assms by (simp add: extrapolate_def)
next
  case False
  from False assms obtain rs where "mem s' = (mem s)(F := assign_F (ex_list s) rs (mem s F))"
    by (rule extrapolate_mem)
  then show ?thesis by simp
qed

lemma pass_mid_PF: "mem (pass_mid cfg s2) PF = mem s2 PF"
proof -
  have "fold (\<lambda>i1 st. put st Density i1 0) rows st PF = st PF" for rows :: "int list" and st :: store
    by (rule fold_frame) (simp add: put_buf)
  then show ?thesis
    by (simp add: pass_mid_def first_pass_body_def later_pass_body_def Let_def rk4_frame
        moments_feq_trunc_frame feq_ExBD_frame fold_box_add_frame)
qed

lemma ex_pass_PF:
  assumes "ex_pass cfg s = Inr s'"
  shows "mem s' PF = mem s PF" and "TAMask s k \<Longrightarrow> TAMask s' k"
proof -
  from assms obtain s2 where e: "extrapolate cfg (pass_start cfg s) = Inr s2"
    and s': "s' = (if ExFF s2 \<noteq> [] then rebuild_TBL cfg (pass_mid cfg s2) else pass_mid cfg s2)"
    by (rule ex_pass_Inr)
  have t2: "TAMask s2 = TAMask s" using extrapolate_frame(6) [OF e] by (simp add: pass_start_def)
  show "mem s' PF = mem s PF"
    using extrapolate_PF [OF e] by (simp add: s' rebuild_TBL_frame pass_mid_PF pass_start_def)
  show "TAMask s k \<Longrightarrow> TAMask s' k"
    using pass_mid_grows(2) [of s2 k cfg] t2 by (simp add: s' rebuild_TBL_frame)
qed

lemma ex_loop_PF:
  "ex_loop cfg s = Inr s' \<Longrightarrow> mem s' PF = mem s PF \<and> (\<forall>k. TAMask s k \<longrightarrow> TAMask s' k)"
proof (induction cfg s rule: ex_loop.induct)
  case (1 cfg s)
  show ?case
  proof (cases "loop_cond cfg s")
    case False
    then show ?thesis using "1.prems" by (simp add: ex_loop.simps)
  next
    case True
    then obtain s1 where p: "ex_pass cfg s = Inr s1" and l: "ex_loop cfg s1 = Inr s'"
      using "1.prems" by (auto simp: ex_loop.simps [of cfg s] split: sum.splits)
    show ?thesis using "1.IH" [OF True p l] ex_pass_PF [OF p] by auto
  qed
qed

lemma case_update_PF: "mem (case_update cfg s) PF = mem s PF"
  by (simp add: case_update_def case2_def case3_def Let_def rk4_frame moments_feq_trunc_frame
      moments_feq_full_frame)

lemma normalize_PF_masked:
  assumes "\<not> isFullGrid cfg" "PF_masked s" "normalize cfg s = Inr s'"
  shows "PF_masked s'"
proof (cases "update_region cfg s = []")
  case True
  then show ?thesis using assms by (simp add: normalize_def Let_def)
next
  case False
  then have s': "s' = s\<lparr>mem := fold (scale_cell cfg (1 / norm_factor cfg s)) (update_region cfg s) (mem s)\<rparr>"
    using assms(3) by (auto simp: normalize_def Let_def split: if_splits)
  show ?thesis unfolding PF_masked_def
  proof (intro allI impI)
    fix k assume n: "\<not> TAMask s' k"
    then have a: "\<not> TAMask s k" by (simp add: s')
    then have "k \<notin> idx cfg ` set (update_region cfg s)"
      using assms(1) live_cells_masked by (auto simp: update_region_def)
    then have "mem s' PF k = mem s PF k" by (simp add: s' fold_scale_off)
    then show "mem s' PF k = 0" using assms(2) a by (simp add: PF_masked_def)
  qed
qed

lemma prune_cell_PF: "prune_cell cfg msk c st PF k = 0 \<or> prune_cell cfg msk c st PF k = st PF k"
  by (simp add: prune_cell_def Let_def put_apply)

lemma fold_prune_cell_PF:
  "fold (prune_cell cfg msk) cs st PF k = 0 \<or> fold (prune_cell cfg msk) cs st PF k = st PF k"
proof (induction cs arbitrary: st)
  case Nil
  show ?case by simp
next
  case (Cons c cs)
  show ?case using Cons.IH [of "prune_cell cfg msk c st"] prune_cell_PF [of cfg msk c st k] by auto
qed

lemma prune_PF_masked: "PF_masked s \<Longrightarrow> PF_masked (prune_PF cfg s)"
  unfolding PF_masked_def prune_PF_def
  using fold_prune_cell_PF [of cfg "TAMask s" _ "mem s"] by (simp; metis)

text \<open>With \<open>PF = 0\<close> outside the mask, the mask loop marks no cell that was not live.\<close>

lemma update_mask_enters:
  assumes "PF_masked s" "TAMask (update_mask cfg s) k"
  shows "TAMask s k"
  using fold_mask_cell [of k cfg "box_cells (x1_min s) (x1_max s) (x2_min s) (x2_max s)" s] assms
  by (auto simp: update_mask_def PF_masked_def)

lemma update_mask_PF_masked:
  assumes "PF_masked s"
  shows "PF_masked (update_mask cfg s)"
  unfolding PF_masked_def
proof (intro allI impI)
  fix k assume n: "\<not> TAMask (update_mask cfg s) k"
  have p: "mem (update_mask cfg s) PF = mem s PF" by (simp add: update_mask_def fold_mask_cell_PF)
  show "mem (update_mask cfg s) PF k = 0"
    using fold_mask_cell [of k cfg "box_cells (x1_min s) (x1_max s) (x2_min s) (x2_max s)" s] n assms
    unfolding p by (auto simp: update_mask_def PF_masked_def)
qed

lemma truncate_step_PF_masked:
  assumes "PF_masked s"
  shows "PF_masked (truncate_step cfg s)"
proof -
  let ?u = "update_mask cfg (prune_PF cfg s)"
  let ?b = "build_TB cfg (rebuild_box cfg ?u)"
  have u: "PF_masked ?u" by (rule update_mask_PF_masked [OF prune_PF_masked [OF assms]])
  have b: "mem ?b = mem ?u" "TAMask ?b = TAMask ?u"
    by (simp_all add: build_TB_frame rebuild_box_frame)
  show ?thesis unfolding PF_masked_def truncate_step_def
  proof (intro allI impI)
    fix k assume "\<not> TAMask (expand_TA cfg ?b) k"
    then have "\<not> TAMask ?u k" using expand_TA_frame(2) [of ?b k cfg] b(2) by auto
    then show "mem (expand_TA cfg ?b) PF k = 0"
      using u by (simp add: expand_TA_frame(1) b(1) PF_masked_def)
  qed
qed

text \<open>The state on which the mask loop of a step runs.\<close>

lemma step_parts:
  assumes "\<not> isFullGrid cfg" "PF_masked s" "ex_loop cfg (step_head cfg s) = Inr s1"
    "normalize cfg (case_update cfg s1) = Inr s2"
  shows "step cfg s = Inr (expand_TA cfg (build_TB cfg (rebuild_box cfg (update_mask cfg (prune_PF cfg s2)))))"
    and "PF_masked (prune_PF cfg s2)"
proof -
  show "step cfg s = Inr (expand_TA cfg (build_TB cfg (rebuild_box cfg (update_mask cfg (prune_PF cfg s2)))))"
    using assms(1,3,4) by (simp add: step_def finish_step_def truncate_step_def)
  have "PF_masked (step_head cfg s)" using assms(2) by (simp add: PF_masked_def step_head_frame)
  then have "PF_masked s1" using ex_loop_PF [OF assms(3)] by (auto simp: PF_masked_def)
  then have "PF_masked (case_update cfg s1)"
    by (simp add: PF_masked_def case_update_PF case_update_frame)
  then have "PF_masked s2" using assms(4) by (rule normalize_PF_masked [OF assms(1)])
  then show "PF_masked (prune_PF cfg s2)" by (rule prune_PF_masked)
qed

lemma step_PF_masked:
  assumes "\<not> isFullGrid cfg" "PF_masked s" "step cfg s = Inr s'"
  shows "PF_masked s'"
proof -
  from assms(3) obtain s1 s2 where l: "ex_loop cfg (step_head cfg s) = Inr s1"
    and n: "normalize cfg (case_update cfg s1) = Inr s2" and s': "s' = truncate_step cfg s2"
    using assms(1) by (auto simp: step_def finish_step_def split: sum.splits)
  have "PF_masked (step_head cfg s)" using assms(2) by (simp add: PF_masked_def step_head_frame)
  then have "PF_masked s1" using ex_loop_PF [OF l] by (auto simp: PF_masked_def)
  then have "PF_masked (case_update cfg s1)"
    by (simp add: PF_masked_def case_update_PF case_update_frame)
  then have "PF_masked s2" using n by (rule normalize_PF_masked [OF assms(1)])
  then show ?thesis unfolding s' by (rule truncate_step_PF_masked)
qed

lemma steps_PF_masked:
  "\<not> isFullGrid cfg \<Longrightarrow> PF_masked s \<Longrightarrow> steps n cfg s = Inr s' \<Longrightarrow> PF_masked s'"
proof (induction n arbitrary: s)
  case 0
  then show ?case by simp
next
  case (Suc n)
  from Suc.prems(3) obtain s1 where s1: "step cfg s = Inr s1" "steps n cfg s1 = Inr s'"
    by (auto split: sum.splits)
  show ?case by (rule Suc.IH [OF Suc.prems(1) step_PF_masked [OF Suc.prems(1,2) s1(1)] s1(2)])
qed

lemma init_wave_PF: "init_wave cfg st PF = st PF"
  unfolding init_wave_def by (rule fold_frame) (simp add: put_buf)

lemma fold_init_norm_PF_off:
  "k \<notin> idx cfg ` set cs \<Longrightarrow> fold (init_norm_cell cfg nrm) cs st PF k = st PF k"
  by (induction cs arbitrary: st) (simp_all add: init_norm_cell_apply)

lemma init_normalize_PF_off:
  assumes "init_normalize cfg st = Inr st'" "k \<notin> idx cfg ` set (interior_cells cfg)"
  shows "st' PF k = st PF k"
  using assms by (auto simp: init_normalize_def Let_def fold_init_norm_PF_off split: if_splits)

lemma init_trunc_cell_inv:
  "(k = idx cfg c \<longrightarrow> TAMask (init_trunc_cell cfg c s) k \<or> mem (init_trunc_cell cfg c s) PF k = 0)
   \<and> (TAMask s k \<or> mem s PF k = 0 \<longrightarrow> TAMask (init_trunc_cell cfg c s) k \<or> mem (init_trunc_cell cfg c s) PF k = 0)"
  unfolding init_trunc_cell_def Let_def idx_def put_def by auto

lemma fold_init_trunc_inv:
  "(\<forall>k. k \<notin> idx cfg ` set cs \<longrightarrow> TAMask s k \<or> mem s PF k = 0)
   \<Longrightarrow> PF_masked (fold (init_trunc_cell cfg) cs s)"
proof (induction cs arbitrary: s)
  case Nil
  then show ?case by (auto simp: PF_masked_def)
next
  case (Cons c cs)
  show ?case unfolding fold_simps
  proof (rule Cons.IH, intro allI impI)
    fix k assume "k \<notin> idx cfg ` set cs"
    then show "TAMask (init_trunc_cell cfg c s) k \<or> mem (init_trunc_cell cfg c s) PF k = 0"
      using init_trunc_cell_inv [of k cfg c s] Cons.prems by (cases "k = idx cfg c") auto
  qed
qed

lemma init_scan_PF_masked:
  assumes "\<not> isFullGrid cfg" "init_scan cfg = Inr s1"
  shows "PF_masked s1"
proof -
  from assms obtain st where n: "init_normalize cfg (init_wave cfg (mem state_zero)) = Inr st"
    and s1: "s1 = fold (init_trunc_cell cfg) (interior_cells cfg) (state_zero\<lparr>mem := st\<rparr>)"
    by (auto simp: init_scan_def split: sum.splits)
  show ?thesis unfolding s1
  proof (rule fold_init_trunc_inv, intro allI impI)
    fix k assume k: "k \<notin> idx cfg ` set (interior_cells cfg)"
    have "st PF k = init_wave cfg (mem state_zero) PF k" by (rule init_normalize_PF_off [OF n k])
    then have "st PF k = 0" by (simp add: init_wave_PF state_zero_def)
    then show "TAMask (state_zero\<lparr>mem := st\<rparr>) k \<or> mem (state_zero\<lparr>mem := st\<rparr>) PF k = 0" by simp
  qed
qed

lemma fold_init_box_cell_PF:
  "TAMask (fold (init_box_cell cfg) cs s) = TAMask s \<and> mem (fold (init_box_cell cfg) cs s) PF = mem s PF"
proof (induction cs arbitrary: s)
  case Nil
  show ?case by simp
next
  case (Cons c cs)
  have t: "TAMask (init_box_cell cfg c s) = TAMask s" "mem (init_box_cell cfg c s) PF = mem s PF"
    by (simp_all add: init_box_cell_def Let_def put_buf)
  show ?case using Cons.IH [of "init_box_cell cfg c s"] by (simp add: t)
qed

lemma init_ring_PF_masked:
  assumes "PF_masked s1"
  shows "PF_masked (init_ring cfg s1)"
proof -
  define s2 where "s2 = fold (init_box_cell cfg) (interior_cells cfg) s1"
  define s3 where "s3 = s2\<lparr>TB := map (idx cfg)
                          (filter (is_boundary cfg (TAMask s2))
                             (box_cells (x1_min s2) (x1_max s2) (x2_min s2) (x2_max s2)))\<rparr>"
  define tmpVec where "tmpVec = sort_unique (concat (map (grow_TB cfg (TAMask s3)) (TB s3)))"
  have r: "init_ring cfg s1 = (fold (box_add cfg) tmpVec s3)\<lparr>ta_size :=
             int (length (live_cells cfg (fold (box_add cfg) tmpVec s3)))\<rparr>"
    by (simp add: init_ring_def Let_def s2_def s3_def tmpVec_def)
  have c2: "\<not> TAMask s2 k \<Longrightarrow> mem s2 PF k = 0" for k
    using fold_init_box_cell_PF [of cfg "interior_cells cfg" s1] assms by (auto simp: s2_def PF_masked_def)
  show ?thesis unfolding PF_masked_def r
    using c2 by (simp add: fold_box_add_frame fold_box_add_TAMask s3_def)
qed

lemma init_moments_PF: "mem (init_moments cfg s) PF = mem s PF"
proof -
  have "moments_trunc cfg msk a b c d st PF = st PF" for msk a b c d st
    unfolding moments_trunc_def by (rule fold_frame) (simp add: put_moments_frame)
  moreover have "moments_full cfg st PF = st PF" for st
    unfolding moments_full_def by (rule fold_frame) (simp add: put_moments_frame)
  ultimately show ?thesis by (simp add: init_moments_def)
qed

lemma Evolve_PF_masked:
  assumes "\<not> isFullGrid cfg" "Evolve cfg n = Inr s"
  shows "PF_masked s"
proof -
  from assms(2) obtain s1 where i: "init_scan cfg = Inr s1"
    and st: "steps n cfg (init_finish cfg s1) = Inr s"
    by (auto simp: Evolve_def Evolve_init_def split: sum.splits)
  have p: "PF_masked s1" by (rule init_scan_PF_masked [OF assms(1) i])
  have "PF_masked (if isFullGrid cfg \<or> ta_size s1 = 0 then s1 else init_ring cfg s1)"
    using p init_ring_PF_masked [OF p] by simp
  then have "PF_masked (init_finish cfg s1)"
    by (simp add: init_finish_def PF_masked_def init_moments_PF init_moments_frame)
  then show ?thesis using st by (rule steps_PF_masked [OF assms(1)])
qed

section \<open>Runs on a grid with one interior cell\<close>

lemma cfg_cell_fields:
  "EDGE (cfg_cell\<lparr>TolH := t\<rparr>) = 2" "BoxShape0 (cfg_cell\<lparr>TolH := t\<rparr>) = 5"
  "BoxShape1 (cfg_cell\<lparr>TolH := t\<rparr>) = 5" "Box0 (cfg_cell\<lparr>TolH := t\<rparr>) = - 2"
  "Box2 (cfg_cell\<lparr>TolH := t\<rparr>) = - 2" "H0 (cfg_cell\<lparr>TolH := t\<rparr>) = 1" "H1 (cfg_cell\<lparr>TolH := t\<rparr>) = 1"
  "kk (cfg_cell\<lparr>TolH := t\<rparr>) = 1 / 100" "mass (cfg_cell\<lparr>TolH := t\<rparr>) = 1" "kb (cfg_cell\<lparr>TolH := t\<rparr>) = 1"
  "gamma (cfg_cell\<lparr>TolH := t\<rparr>) = 1" "TolH (cfg_cell\<lparr>TolH := t\<rparr>) = t"
  "TolHd (cfg_cell\<lparr>TolH := t\<rparr>) = 1 / 1000" "TolL (cfg_cell\<lparr>TolH := t\<rparr>) = 1 / 100"
  "ExLimit (cfg_cell\<lparr>TolH := t\<rparr>) = 1"
  "\<not> isFullGrid (cfg_cell\<lparr>TolH := t\<rparr>)" "\<not> isIsothermal (cfg_cell\<lparr>TolH := t\<rparr>)"
  "\<not> isLinearizedCollision (cfg_cell\<lparr>TolH := t\<rparr>)"
  "POTENTIAL_X (cfg_cell\<lparr>TolH := t\<rparr>) = Vx_DW2"
  "WAVEFUNCTION (cfg_cell\<lparr>TolH := t\<rparr>) = Wavefunction_DW2 1 (1/2) (1/2) 0 0"
  "M1 (cfg_cell\<lparr>TolH := t\<rparr>) = 5" "W1 (cfg_cell\<lparr>TolH := t\<rparr>) = 5"
  by (simp_all add: cfg_cell_def cfg_small_def M1_def W1_def)

lemma interior_cell: "interior_cells (cfg_cell\<lparr>TolH := t\<rparr>) = [(2, 2)]"
  by (simp add: interior_cells_def box_cells_def cfg_cell_fields upto.simps)

lemma idx_cell: "idx (cfg_cell\<lparr>TolH := t\<rparr>) (i, j) = i * 5 + j"
  "GridToIdx (cfg_cell\<lparr>TolH := t\<rparr>) i j = i * 5 + j"
  by (simp_all add: idx_def GridToIdx_def cfg_cell_fields)

lemma init_wave_cell:
  "init_wave (cfg_cell\<lparr>TolH := t\<rparr>) (mem state_zero) = (\<lambda>b k. if k = 12 \<and> b = F then 1 / pi else 0)"
  by (rule ext, rule ext)
     (simp add: init_wave_def interior_cell idx_cell put_apply state_zero_def xx1_of_def xx2_of_def
        cfg_cell_fields Wavefunction_DW2_def)

lemma init_normalize_cell:
  "init_normalize (cfg_cell\<lparr>TolH := t\<rparr>) (init_wave (cfg_cell\<lparr>TolH := t\<rparr>) (mem state_zero)) = Inr st_cell"
proof -
  have "(\<lambda>b k. if k = 12 \<and> (b = F \<or> b = PF) then pi * (1 / pi) else
           (if k = 12 \<and> b = F then 1 / pi else 0)) = st_cell"
    by (rule ext, rule ext) (auto simp: st_cell_def)
  then show ?thesis
    by (simp add: init_normalize_def Let_def interior_cell init_wave_cell norm_sum_def idx_cell
        cfg_cell_fields init_norm_cell_def put_def fun_eq_iff st_cell_def)
qed

lemma init_scan_cell:
  "init_scan (cfg_cell\<lparr>TolH := t\<rparr>) =
     Inr (if 1 < t then state_zero\<lparr>mem := put st_cell PF 12 0\<rparr>
          else state_zero\<lparr>mem := st_cell, TAMask := (\<lambda>k. k = 12), ta_size := 1\<rparr>)"
proof -
  have m: "(\<lambda>k::int. False)(12 := True) = (\<lambda>k. k = 12)" by (simp add: fun_eq_iff)
  have "init_scan (cfg_cell\<lparr>TolH := t\<rparr>) =
          Inr (init_trunc_cell (cfg_cell\<lparr>TolH := t\<rparr>) (2, 2) (state_zero\<lparr>mem := st_cell\<rparr>))"
    by (simp add: init_scan_def init_normalize_cell interior_cell cfg_cell_fields)
  also have "init_trunc_cell (cfg_cell\<lparr>TolH := t\<rparr>) (2, 2) (state_zero\<lparr>mem := st_cell\<rparr>) =
     (if 1 < t then state_zero\<lparr>mem := put st_cell PF 12 0\<rparr>
          else state_zero\<lparr>mem := st_cell, TAMask := (\<lambda>k. k = 12), ta_size := 1\<rparr>)"
    using m by (simp add: init_trunc_cell_def Let_def idx_cell cfg_cell_fields TolHd_sq_def st_cell_def
        state_zero_def)
  finally show ?thesis .
qed

lemma box_cells_empty: "b < a \<Longrightarrow> box_cells a b c d = []"
  by (simp add: box_cells_def)

lemma fold_box_cell_idle: "(\<forall>k. \<not> TAMask s k) \<Longrightarrow> fold (box_cell cfg) cs s = s"
  by (induction cs) (simp_all add: box_cell_def Let_def)

lemma step_idle:
  assumes "\<not> isFullGrid cfg" "idle s"
  obtains s' where "step cfg s = Inr s'" "idle s'" "mem s' = mem s"
proof -
  define h where "h = step_head cfg s"
  have i: "TB s = []" "\<And>k. \<not> TAMask s k" "x1_max s < x1_min s" using assms(2) by (simp_all add: idle_def)
  have h: "TBL h = []" "mem h = mem s" "TAMask h = TAMask s" "TB h = []" "x1_min h = x1_min s"
    "x1_max h = x1_max s" "\<not> isExtrapolate h"
    using assms(1) i(1) by (simp_all add: h_def step_head_def Let_def build_TBL_def)
  have l: "ex_loop cfg h = Inr h" by (simp add: ex_loop.simps loop_cond_def h(1))
  have b: "box_cells (x1_min h) (x1_max h) (x2_min h) (x2_max h) = []"
    using i(3) by (simp add: box_cells_empty h)
  have lc: "live_cells cfg h = []" by (simp add: live_cells_def b)
  have r: "[x1_min h..x1_max h] = []" using i(3) by (simp add: h)
  have c: "case_update cfg h = h"
    using assms(1) h(7) by (simp add: case_update_def case2_def Let_def lc rk4_def moments_feq_trunc_def r)
  have n: "normalize cfg h = Inr h"
    using assms(1) by (simp add: normalize_def Let_def update_region_def lc)
  define s' where "s' = truncate_step cfg h"
  have p: "prune_PF cfg h = h" by (simp add: prune_PF_def b)
  have u: "update_mask cfg h = h" by (simp add: update_mask_def b)
  define z where "z = h\<lparr>x1_min := BIG_NUMBER, x1_max := - BIG_NUMBER,
           x2_min := BIG_NUMBER, x2_max := - BIG_NUMBER, ta_size := 0\<rparr>"
  have zm: "\<forall>k. \<not> TAMask z k" using i(2) by (simp add: z_def h)
  have rb: "rebuild_box cfg h = z"
    unfolding rebuild_box_def z_def [symmetric] by (rule fold_box_cell_idle [OF zm])
  have tb: "build_TB cfg z = z" by (simp add: build_TB_def z_def)
  have lz: "live_cells cfg z = []" using zm by (simp add: live_cells_def)
  have tz: "TB z = []" by (simp add: z_def h)
  have "expand_TA cfg z = z\<lparr>ta_size := 0\<rparr>"
    by (simp add: expand_TA_def Let_def lz tz)
  then have ex: "expand_TA cfg z = z" by (simp add: z_def)
  have s'z: "s' = z" by (simp add: s'_def truncate_step_def p u rb tb ex)
  have st: "step cfg s = Inr s'"
    using assms(1) by (simp add: step_def h_def [symmetric] l c finish_step_def n s'_def)
  have "idle s'" using i(2) by (simp add: s'z idle_def z_def h BIG_NUMBER_def)
  moreover have "mem s' = mem s" by (simp add: s'z z_def h)
  ultimately show ?thesis using st that by blast
qed

lemma steps_idle:
  assumes "\<not> isFullGrid cfg"
  shows "idle s \<Longrightarrow> \<exists>s'. steps n cfg s = Inr s' \<and> idle s' \<and> mem s' = mem s"
proof (induction n arbitrary: s)
  case 0
  then show ?case by simp
next
  case (Suc n)
  from step_idle [OF assms Suc.prems] obtain s1 where
    s1: "step cfg s = Inr s1" "idle s1" "mem s1 = mem s" by blast
  from Suc.IH [OF s1(2)] obtain s' where "steps n cfg s1 = Inr s'" "idle s'" "mem s' = mem s1" by blast
  then show ?case using s1 by simp
qed

lemma init_coarse:
  "Evolve_init cfg_coarse = Inr (init_finish cfg_coarse (state_zero\<lparr>mem := put st_cell PF 12 0\<rparr>))"
  "idle (init_finish cfg_coarse (state_zero\<lparr>mem := put st_cell PF 12 0\<rparr>))"
  "mem (init_finish cfg_coarse (state_zero\<lparr>mem := put st_cell PF 12 0\<rparr>)) F 12 = 1"
proof -
  have s: "init_scan cfg_coarse = Inr (state_zero\<lparr>mem := put st_cell PF 12 0\<rparr>)"
    unfolding cfg_coarse_def by (simp add: init_scan_cell)
  show "Evolve_init cfg_coarse = Inr (init_finish cfg_coarse (state_zero\<lparr>mem := put st_cell PF 12 0\<rparr>))"
    by (simp add: Evolve_init_def s)
  show "idle (init_finish cfg_coarse (state_zero\<lparr>mem := put st_cell PF 12 0\<rparr>))"
    by (simp add: init_finish_def idle_def init_moments_frame) (simp add: state_zero_def BIG_NUMBER_def)
  show "mem (init_finish cfg_coarse (state_zero\<lparr>mem := put st_cell PF 12 0\<rparr>)) F 12 = 1"
    by (simp add: init_finish_def init_moments_frame) (simp add: state_zero_def put_apply st_cell_def)
qed

lemma cfg_cell_TolH: "cfg_cell\<lparr>TolH := 1 / 1000\<rparr> = cfg_cell"
  by (simp add: cfg_cell_def cfg_small_def)

lemmas cell_fields = cfg_cell_fields [of "1 / 1000", unfolded cfg_cell_TolH]
lemmas cell_idx = idx_cell [of "1 / 1000", unfolded cfg_cell_TolH]
lemmas cell_interior = interior_cell [of "1 / 1000", unfolded cfg_cell_TolH]

lemma sdiv_12_5: "(12::int) sdiv 5 = 2" "(12::int) smod 5 = 2"
  by (simp_all add: signed_divide_int_def signed_modulo_int_def)

lemma box_cells_2: "box_cells 2 2 2 2 = [(2, 2)]"
  by (simp add: box_cells_def upto.simps)

lemma stage_operator_cell: "stage_operator cfg_cell g feq 2 2 = (1 / 100) * (feq 2 2 - g 2 2)"
  by (simp add: stage_operator_def cell_fields xx2_of_def Vx_DW2_def)

lemma moments_row_cell:
  assumes "st F 12 = 1"
  shows "moments_row cfg_cell st 2 [2] = (1, 0, 0)"
  using assms
  by (simp add: moments_row_def Let_def row_density_def row_velocity_def row_temp_def cell_idx
      cell_fields xx2_of_def)

lemma feq_cell_cell: "feq_cell cfg_cell (1, 0, 0) 2 = 0"
  by (simp add: feq_cell_def feq_val_def sanitize_def)

lemma rk4_cell_FF:
  assumes "st F 12 = 1" "st Feq_loc 12 = 0"
  shows "rk4 cfg_cell [(2, 2)] st FF 12 = 792039867 / 800000000"
proof -
  have d: "distinct (map (idx cfg_cell) [(2, 2)])" by simp
  have c: "(2, 2) \<in> set [(2::int, 2::int)]" by simp
  note r = rk4_cells [OF d c, of st]
  have f: "field cfg_cell (st F) 2 2 = 1" "field cfg_cell (st Feq_loc) 2 2 = 0"
    using assms by (simp_all add: field_def cell_idx)
  have k1: "field cfg_cell (rk4 cfg_cell [(2, 2)] st KK1) 2 2 = - 1 / 100"
    unfolding r(1) stage_operator_cell by (simp add: f)
  have k2: "field cfg_cell (rk4 cfg_cell [(2, 2)] st KK2) 2 2 = - 199 / 20000"
    unfolding r(2) stage_operator_cell by (simp add: f k1)
  have k3: "field cfg_cell (rk4 cfg_cell [(2, 2)] st KK3) 2 2 = - 39801 / 4000000"
    unfolding r(3) stage_operator_cell by (simp add: f k2)
  have k4: "field cfg_cell (rk4 cfg_cell [(2, 2)] st KK4) 2 2 = - 3960199 / 400000000"
    unfolding r(4) stage_operator_cell by (simp add: f k3)
  have "field cfg_cell (rk4 cfg_cell [(2, 2)] st FF) 2 2 = 792039867 / 800000000"
    unfolding r(5) by (simp add: f k1 k2 k3 k4)
  then show ?thesis by (simp add: field_def cell_idx)
qed

lemma truncate_step_cell:
  assumes "TAMask n = (\<lambda>k. k = 12)" "mem n F = (\<lambda>k. if k = 12 then 1 else 0)" "mem n PF 12 = 1"
    "x1_min n = 2" "x1_max n = 2" "x2_min n = 2" "x2_max n = 2"
  shows "one_live (truncate_step cfg_cell n)"
proof -
  have p: "prune_PF cfg_cell n = n"
    by (simp add: prune_PF_def assms box_cells_2 prune_cell_def cell_idx cell_fields)
  have u: "update_mask cfg_cell n = n"
    by (simp add: update_mask_def assms box_cells_2 mask_cell_def cell_idx)
  define z where "z = n\<lparr>x1_min := 2, x1_max := 2, x2_min := 2, x2_max := 2, ta_size := 1\<rparr>"
  have rb: "rebuild_box cfg_cell n = z"
    by (simp add: rebuild_box_def cell_interior box_cell_def cell_idx assms BIG_NUMBER_def z_def)
  define y where "y = z\<lparr>TB := [12]\<rparr>"
  have tb: "build_TB cfg_cell z = y"
    by (simp add: build_TB_def z_def y_def box_cells_2 is_boundary_def cell_idx assms)
  have g: "grow_TB cfg_cell (TAMask y) 12 = []"
    by (simp add: grow_TB_def grow_neigh_def sdiv_12_5 cell_fields)
  have lv: "live_cells cfg_cell y = [(2, 2)]"
    by (simp add: live_cells_def y_def z_def box_cells_2 cell_idx assms)
  have ty: "TB y = [12]" by (simp add: y_def)
  have "expand_TA cfg_cell y = y\<lparr>ta_size := 1\<rparr>"
    by (simp add: expand_TA_def Let_def ty g lv)
  then have ex: "expand_TA cfg_cell y = y" by (simp add: y_def z_def)
  have "truncate_step cfg_cell n = y" by (simp add: truncate_step_def p u rb tb ex)
  then show ?thesis by (simp add: one_live_def y_def z_def assms)
qed

text \<open>A step from such a state: the loop makes no pass, and after \<^verbatim>\<open>CASE 2\<close> and the
  normalization the cell holds 1 again.\<close>

lemma step_cell_parts:
  assumes "one_live s"
  obtains s1 s2 where "ex_loop cfg_cell (step_head cfg_cell s) = Inr s1"
    "normalize cfg_cell (case_update cfg_cell s1) = Inr s2"
    "TAMask s2 = (\<lambda>k. k = 12)" "mem s2 F = (\<lambda>k. if k = 12 then 1 else 0)" "mem s2 PF 12 = 1"
    "x1_min s2 = 2" "x1_max s2 = 2" "x2_min s2 = 2" "x2_max s2 = 2"
proof -
  define h where "h = step_head cfg_cell s"
  note o = assms [unfolded one_live_def]
  have lk: "\<not> leaking cfg_cell t 12" for t
    by (simp add: leaking_def Let_def sdiv_12_5 cell_fields)
  have h: "TBL h = []" "mem h = mem s" "TAMask h = (\<lambda>k. k = 12)" "x1_min h = 2" "x1_max h = 2"
    "x2_min h = 2" "x2_max h = 2" "\<not> isExtrapolate h"
    using o by (simp_all add: h_def step_head_def Let_def build_TBL_def cell_fields lk)
  have l: "ex_loop cfg_cell h = Inr h" by (simp add: ex_loop.simps loop_cond_def h(1))
  define c where "c = case_update cfg_cell h"
  define st1 where "st1 = moments_feq_trunc cfg_cell (TAMask h) 2 2 2 2 (mem h)"
  have lv: "live_cells cfg_cell h = [(2, 2)]"
    by (simp add: live_cells_def h box_cells_2 cell_idx)
  have cm: "mem c = rk4 cfg_cell [(2, 2)] st1"
    by (simp add: c_def case_update_def h cell_fields case2_def Let_def lv st1_def)
  have cf: "TAMask c = (\<lambda>k. k = 12)" "x1_min c = 2" "x1_max c = 2" "x2_min c = 2" "x2_max c = 2"
    by (simp_all add: c_def case_update_def h cell_fields case2_def Let_def)
  have f1: "st1 F 12 = 1" using o by (simp add: st1_def moments_feq_trunc_frame h)
  have lc: "live_cols cfg_cell (TAMask h) 2 2 2 = [2]"
    by (simp add: live_cols_def h cell_idx upto.simps)
  have mr: "moments_row cfg_cell (mem h) 2 [2] = (1, 0, 0)"
    by (rule moments_row_cell) (use o in \<open>simp add: h\<close>)
  have "st1 Feq_loc (GridToIdx cfg_cell 2 2) =
         feq_cell cfg_cell (moments_row cfg_cell (mem h) 2 (live_cols cfg_cell (TAMask h) 2 2 2)) 2"
    unfolding st1_def by (rule moments_feq_trunc_cell) (simp_all add: cell_fields lc)
  then have q1: "st1 Feq_loc 12 = 0"
    unfolding lc mr feq_cell_cell by (simp add: cell_idx)
  have ff: "mem c FF 12 = 792039867 / 800000000" unfolding cm using f1 q1 by (rule rk4_cell_FF [of st1])
  have cF: "mem c F = mem s F" by (simp add: c_def case_update_frame h)
  have lvc: "live_cells cfg_cell c = [(2, 2)]"
    by (simp add: live_cells_def cf box_cells_2 cell_idx)
  have z: "norm_factor cfg_cell c = 792039867 / 800000000"
    by (simp add: norm_factor_def update_region_def cell_fields lvc norm_sum_def cell_idx ff)
  define n where "n = c\<lparr>mem := scale_cell cfg_cell (1 / (792039867 / 800000000)) (2, 2) (mem c)\<rparr>"
  have nz: "normalize cfg_cell c = Inr n"
    by (simp add: normalize_def Let_def update_region_def cell_fields lvc z n_def)
  have nF: "mem n F = (\<lambda>k. if k = 12 then 1 else 0)"
    using o by (simp add: n_def scale_cell_apply cell_idx ff cF fun_eq_iff)
  have nP: "mem n PF 12 = 1" by (simp add: n_def scale_cell_apply cell_idx ff)
  have nf: "TAMask n = (\<lambda>k. k = 12)" "x1_min n = 2" "x1_max n = 2" "x2_min n = 2" "x2_max n = 2"
    by (simp_all add: n_def cf)
  show ?thesis
    by (rule that [OF l [unfolded h_def] nz [unfolded c_def h_def l [unfolded h_def, symmetric]] nf(1) nF nP nf(2-5)])
qed

lemma step_cell:
  assumes "one_live s"
  obtains s' where "step cfg_cell s = Inr s'" "one_live s'"
proof -
  from step_cell_parts [OF assms] obtain s1 s2 where
    l: "ex_loop cfg_cell (step_head cfg_cell s) = Inr s1"
    and n: "normalize cfg_cell (case_update cfg_cell s1) = Inr s2"
    and f: "TAMask s2 = (\<lambda>k. k = 12)" "mem s2 F = (\<lambda>k. if k = 12 then 1 else 0)" "mem s2 PF 12 = 1"
      "x1_min s2 = 2" "x1_max s2 = 2" "x2_min s2 = 2" "x2_max s2 = 2"
    by blast
  have st: "step cfg_cell s = Inr (truncate_step cfg_cell s2)"
    by (simp add: step_def l finish_step_def n cell_fields)
  have "one_live (truncate_step cfg_cell s2)" by (rule truncate_step_cell [OF f])
  then show ?thesis using st that by blast
qed


lemma steps_cell: "one_live s \<Longrightarrow> \<exists>s'. steps n cfg_cell s = Inr s' \<and> one_live s'"
proof (induction n arbitrary: s)
  case 0
  then show ?case by simp
next
  case (Suc n)
  from step_cell [OF Suc.prems] obtain s1 where s1: "step cfg_cell s = Inr s1" "one_live s1" by blast
  from Suc.IH [OF s1(2)] obtain s' where "steps n cfg_cell s1 = Inr s'" "one_live s'" by blast
  then show ?case using s1 by simp
qed

lemma init_scan_live:
  "init_scan cfg_cell = Inr (state_zero\<lparr>mem := st_cell, TAMask := (\<lambda>k. k = 12), ta_size := 1\<rparr>)"
  using init_scan_cell [of "1 / 1000"] by (simp add: cfg_cell_TolH)

lemma init_ring_live:
  "one_live (init_ring cfg_cell (state_zero\<lparr>mem := st_cell, TAMask := (\<lambda>k. k = 12), ta_size := 1\<rparr>))"
proof -
  let ?s1 = "state_zero\<lparr>mem := st_cell, TAMask := (\<lambda>k. k = 12), ta_size := 1\<rparr>"
  define s2 where "s2 = ?s1\<lparr>x1_min := 2, x1_max := 2, x2_min := 2, x2_max := 2\<rparr>"
  have a: "fold (init_box_cell cfg_cell) (interior_cells cfg_cell) ?s1 = s2"
    by (simp add: cell_interior init_box_cell_def cell_idx s2_def) (simp add: state_zero_def BIG_NUMBER_def)
  define s3 where "s3 = s2\<lparr>TB := [12]\<rparr>"
  have b: "s2\<lparr>TB := map (idx cfg_cell)
                          (filter (is_boundary cfg_cell (TAMask s2))
                             (box_cells (x1_min s2) (x1_max s2) (x2_min s2) (x2_max s2)))\<rparr> = s3"
    by (simp add: s2_def s3_def box_cells_2 is_boundary_def cell_idx)
  have g: "grow_TB cfg_cell (TAMask s3) 12 = []"
    by (simp add: grow_TB_def grow_neigh_def sdiv_12_5 cell_fields)
  have t: "TB s3 = [12]" by (simp add: s3_def)
  have r: "init_ring cfg_cell ?s1 = s3\<lparr>ta_size := int (length (live_cells cfg_cell s3))\<rparr>"
    unfolding init_ring_def Let_def a b t by (simp add: g sort_unique_def)
  show ?thesis unfolding r by (simp add: one_live_def s3_def s2_def st_cell_def fun_eq_iff)
qed

lemma live_cells_neg: "live_cells cfg_small state_neg = [(3, 3)]"
proof -
  have "box_cells 2 4 2 4 = [(2,2),(2,3),(2,4),(3,2),(3,3),(3,4),(4,2),(4,3),(4,4)]"
    by (simp add: box_cells_def upto.simps)
  then show ?thesis
    by (simp add: live_cells_def state_neg_def state_one_cell_def state_zero_def idx_def GridToIdx_def
        W1_def cfg_small_def)
qed

lemma norm_factor_neg: "norm_factor cfg_small state_neg = - 1"
  by (simp add: norm_factor_def update_region_def live_cells_neg norm_sum_def)
     (simp add: cfg_small_def idx_def GridToIdx_def W1_def state_neg_def state_one_cell_def)

section \<open>The fields after the initialization, and a fault of the extrapolation\<close>

text \<open>The normalized wavefunction, the mask and \<^verbatim>\<open>PF\<close> after the initial scan, cell by
  cell, for a grid whose interior cells have distinct linear indices.\<close>

lemma init_wave_on:
  assumes "distinct (map (idx cfg) (interior_cells cfg))" "c \<in> set (interior_cells cfg)"
  shows "init_wave cfg st F (idx cfg c) = WAVEFUNCTION cfg (xx1_of cfg (fst c)) (xx2_of cfg (snd c))"
  unfolding init_wave_def
  by (rule fold_cells_on [where g = "\<lambda>b st c. WAVEFUNCTION cfg (xx1_of cfg (fst c)) (xx2_of cfg (snd c))"
        and W = "{F}" and key = "idx cfg"])
     (use assms in \<open>auto simp: put_apply\<close>)

lemma fold_init_norm_on:
  assumes "distinct (map (idx cfg) cs)" "c \<in> set cs" "b \<in> {F, PF}"
  shows "fold (init_norm_cell cfg nrm) cs st b (idx cfg c) = nrm * st F (idx cfg c)"
  by (rule fold_cells_on [where g = "\<lambda>b st c. nrm * st F (idx cfg c)" and W = "{F, PF}" and key = "idx cfg"])
     (use assms in \<open>auto simp: init_norm_cell_apply\<close>)

lemma init_trunc_cell_below:
  "init_trunc_cell cfg c s =
     (if below_thresholds cfg (mem s F) c then s\<lparr>mem := put (mem s) PF (idx cfg c) 0\<rparr>
      else s\<lparr>TAMask := (TAMask s)(idx cfg c := True), ta_size := ta_size s + 1\<rparr>)"
  by (simp add: init_trunc_cell_def below_thresholds_def Let_def idx_def)

lemma fold_init_trunc_mask:
  "TAMask (fold (init_trunc_cell cfg) cs s) k \<longleftrightarrow>
     TAMask s k \<or> (\<exists>c \<in> set cs. idx cfg c = k \<and> \<not> below_thresholds cfg (mem s F) c)"
proof (induction cs arbitrary: s)
  case Nil
  show ?case by simp
next
  case (Cons c cs)
  have f: "mem (init_trunc_cell cfg c s) F = mem s F" by (rule init_trunc_cell_F)
  show ?case unfolding fold_simps Cons.IH f by (auto simp: init_trunc_cell_below)
qed

lemma fold_init_trunc_PF:
  "mem (fold (init_trunc_cell cfg) cs s) PF k =
     (if \<exists>c \<in> set cs. idx cfg c = k \<and> below_thresholds cfg (mem s F) c then 0 else mem s PF k)"
proof (induction cs arbitrary: s)
  case Nil
  show ?case by simp
next
  case (Cons c cs)
  have f: "mem (init_trunc_cell cfg c s) F = mem s F" by (rule init_trunc_cell_F)
  show ?case unfolding fold_simps Cons.IH f by (auto simp: init_trunc_cell_below put_apply)
qed

lemma fold_init_trunc_size:
  "ta_size s \<le> ta_size (fold (init_trunc_cell cfg) cs s)
   \<and> ((\<exists>c \<in> set cs. \<not> below_thresholds cfg (mem s F) c) \<longrightarrow> ta_size s < ta_size (fold (init_trunc_cell cfg) cs s))"
proof (induction cs arbitrary: s)
  case Nil
  show ?case by simp
next
  case (Cons c cs)
  have f: "mem (init_trunc_cell cfg c s) F = mem s F" by (rule init_trunc_cell_F)
  have t: "ta_size s \<le> ta_size (init_trunc_cell cfg c s)"
    "\<not> below_thresholds cfg (mem s F) c \<Longrightarrow> ta_size s < ta_size (init_trunc_cell cfg c s)"
    by (simp_all add: init_trunc_cell_below)
  show ?case using Cons.IH [of "init_trunc_cell cfg c s"] t unfolding fold_simps f by fastforce
qed

lemma fold_init_box_bounds:
  "c \<in> set cs \<Longrightarrow> TAMask s (idx cfg c) \<Longrightarrow>
     x1_min (fold (init_box_cell cfg) cs s) \<le> fst c \<and> fst c \<le> x1_max (fold (init_box_cell cfg) cs s)
   \<and> x2_min (fold (init_box_cell cfg) cs s) \<le> snd c \<and> snd c \<le> x2_max (fold (init_box_cell cfg) cs s)"
proof -
  have mono: "x1_min (fold (init_box_cell cfg) cs s) \<le> x1_min s \<and> x1_max s \<le> x1_max (fold (init_box_cell cfg) cs s)
      \<and> x2_min (fold (init_box_cell cfg) cs s) \<le> x2_min s \<and> x2_max s \<le> x2_max (fold (init_box_cell cfg) cs s)"
    for cs s
  proof (induction cs arbitrary: s)
    case Nil
    show ?case by simp
  next
    case (Cons c cs)
    have "x1_min (init_box_cell cfg c s) \<le> x1_min s \<and> x1_max s \<le> x1_max (init_box_cell cfg c s)
      \<and> x2_min (init_box_cell cfg c s) \<le> x2_min s \<and> x2_max s \<le> x2_max (init_box_cell cfg c s)"
      by (simp add: init_box_cell_def Let_def)
    then show ?case using Cons.IH [of "init_box_cell cfg c s"] by fastforce
  qed
  show "c \<in> set cs \<Longrightarrow> TAMask s (idx cfg c) \<Longrightarrow>
     x1_min (fold (init_box_cell cfg) cs s) \<le> fst c \<and> fst c \<le> x1_max (fold (init_box_cell cfg) cs s)
   \<and> x2_min (fold (init_box_cell cfg) cs s) \<le> snd c \<and> snd c \<le> x2_max (fold (init_box_cell cfg) cs s)"
  proof (induction cs arbitrary: s)
    case Nil
    then show ?case by simp
  next
    case (Cons d cs)
    have t: "TAMask (init_box_cell cfg d s) = TAMask s" by (simp add: init_box_cell_def Let_def)
    show ?case
    proof (cases "c \<in> set cs")
      case True
      show ?thesis using Cons.IH [OF True, of "init_box_cell cfg d s"] Cons.prems(2) by (simp add: t)
    next
      case False
      then have e: "d = c" using Cons.prems(1) by simp
      have "x1_min (init_box_cell cfg c s) \<le> fst c \<and> fst c \<le> x1_max (init_box_cell cfg c s)
        \<and> x2_min (init_box_cell cfg c s) \<le> snd c \<and> snd c \<le> x2_max (init_box_cell cfg c s)"
        using Cons.prems(2) by (simp add: init_box_cell_def Let_def idx_def)
      then show ?thesis using mono [of cs "init_box_cell cfg c s"] unfolding e fold_simps by linarith
    qed
  qed
qed

lemma init_ring_facts:
  shows "mem (init_ring cfg s1) F k
           = (if k \<in> idx cfg ` set (interior_cells cfg) \<and> \<not> TAMask s1 k then 0 else mem s1 F k)"
    and "mem (init_ring cfg s1) PF = mem s1 PF"
    and "c \<in> set (interior_cells cfg) \<Longrightarrow> is_boundary cfg (TAMask s1) c \<Longrightarrow> idx cfg c \<in> set (TB (init_ring cfg s1))"
    and "k \<in> set (TB (init_ring cfg s1)) \<Longrightarrow> TAMask s1 k"
proof -
  define s2 where "s2 = fold (init_box_cell cfg) (interior_cells cfg) s1"
  define s3 where "s3 = s2\<lparr>TB := map (idx cfg)
                          (filter (is_boundary cfg (TAMask s2))
                             (box_cells (x1_min s2) (x1_max s2) (x2_min s2) (x2_max s2)))\<rparr>"
  define tmpVec where "tmpVec = sort_unique (concat (map (grow_TB cfg (TAMask s3)) (TB s3)))"
  have r: "init_ring cfg s1 = (fold (box_add cfg) tmpVec s3)\<lparr>ta_size :=
             int (length (live_cells cfg (fold (box_add cfg) tmpVec s3)))\<rparr>"
    by (simp add: init_ring_def Let_def s2_def s3_def tmpVec_def)
  have m2: "TAMask s2 = TAMask s1" using fold_init_box_cell [of cfg "interior_cells cfg" s1] by (simp add: s2_def)
  show "mem (init_ring cfg s1) F k
           = (if k \<in> idx cfg ` set (interior_cells cfg) \<and> \<not> TAMask s1 k then 0 else mem s1 F k)"
    using fold_init_box_cell [of cfg "interior_cells cfg" s1 k]
    by (simp add: r fold_box_add_frame s3_def s2_def)
  show "mem (init_ring cfg s1) PF = mem s1 PF"
    using fold_init_box_cell_PF [of cfg "interior_cells cfg" s1]
    by (simp add: r fold_box_add_frame s3_def s2_def)
  have tb: "TB (init_ring cfg s1) = map (idx cfg)
                          (filter (is_boundary cfg (TAMask s1))
                             (box_cells (x1_min s2) (x1_max s2) (x2_min s2) (x2_max s2)))"
    by (simp add: r fold_box_add_frame s3_def m2)
  show "idx cfg c \<in> set (TB (init_ring cfg s1))"
    if c: "c \<in> set (interior_cells cfg)" and b: "is_boundary cfg (TAMask s1) c"
  proof -
    have "TAMask s1 (idx cfg c)" using b by (simp add: is_boundary_def Let_def idx_def)
    from fold_init_box_bounds [OF c this]
    have "c \<in> set (box_cells (x1_min s2) (x1_max s2) (x2_min s2) (x2_max s2))"
      unfolding s2_def [symmetric] by (cases c) (simp add: set_box_cells)
    then show ?thesis using b unfolding tb by auto
  qed
  show "TAMask s1 k" if "k \<in> set (TB (init_ring cfg s1))"
    using that unfolding tb by (auto simp: is_boundary_def Let_def idx_def)
qed


lemma init_scan_fields:
  assumes t: "\<not> isFullGrid cfg" and d: "distinct (map (idx cfg) (interior_cells cfg))"
    and i: "init_scan cfg = Inr s1"
  defines "Z \<equiv> (\<Sum>c\<leftarrow>interior_cells cfg. WAVEFUNCTION cfg (xx1_of cfg (fst c)) (xx2_of cfg (snd c)))
                  * (H0 cfg * H1 cfg)"
  shows "c \<in> set (interior_cells cfg) \<Longrightarrow>
           mem s1 F (idx cfg c) = WAVEFUNCTION cfg (xx1_of cfg (fst c)) (xx2_of cfg (snd c)) / Z"
    and "TAMask s1 k \<longleftrightarrow> (\<exists>c \<in> set (interior_cells cfg). idx cfg c = k \<and> \<not> below_thresholds cfg (mem s1 F) c)"
    and "c \<in> set (interior_cells cfg) \<Longrightarrow> \<not> below_thresholds cfg (mem s1 F) c \<Longrightarrow>
           mem s1 PF (idx cfg c) = mem s1 F (idx cfg c) \<and> ta_size s1 \<noteq> 0"
proof -
  define st0 where "st0 = init_wave cfg (mem state_zero)"
  from i t obtain st where n: "init_normalize cfg st0 = Inr st"
    and s1: "s1 = fold (init_trunc_cell cfg) (interior_cells cfg) (state_zero\<lparr>mem := st\<rparr>)"
    by (auto simp: init_scan_def st0_def split: sum.splits)
  have f1: "mem s1 F = st F" by (simp add: s1 fold_init_trunc_F)
  have w: "st0 F (idx cfg c) = WAVEFUNCTION cfg (xx1_of cfg (fst c)) (xx2_of cfg (snd c))"
    if "c \<in> set (interior_cells cfg)" for c
    unfolding st0_def using d that by (rule init_wave_on)
  have z: "norm_sum cfg (interior_cells cfg) (st0 F) * (H0 cfg * H1 cfg) = Z"
    unfolding norm_sum_eq Z_def using w by (simp cong: map_cong)
  have v: "st b (idx cfg c) = st0 F (idx cfg c) / Z" if c: "c \<in> set (interior_cells cfg)" and b: "b \<in> {F, PF}" for c b
  proof -
    have ne: "interior_cells cfg \<noteq> []" using c by auto
    have "st = fold (init_norm_cell cfg (1 / Z)) (interior_cells cfg) st0"
      using n ne by (auto simp: init_normalize_def Let_def z split: if_splits)
    then show ?thesis using fold_init_norm_on [OF d c b, of "1 / Z" st0] by simp
  qed
  show "mem s1 F (idx cfg c) = WAVEFUNCTION cfg (xx1_of cfg (fst c)) (xx2_of cfg (snd c)) / Z"
    if "c \<in> set (interior_cells cfg)"
    using v [OF that, of F] w [OF that] by (simp add: f1)
  show "TAMask s1 k \<longleftrightarrow> (\<exists>c \<in> set (interior_cells cfg). idx cfg c = k \<and> \<not> below_thresholds cfg (mem s1 F) c)"
    unfolding f1 unfolding s1 fold_init_trunc_mask by (simp add: state_zero_def)
  show "mem s1 PF (idx cfg c) = mem s1 F (idx cfg c) \<and> ta_size s1 \<noteq> 0"
    if c: "c \<in> set (interior_cells cfg)" and nb: "\<not> below_thresholds cfg (mem s1 F) c"
  proof -
    have "\<not> (\<exists>c' \<in> set (interior_cells cfg). idx cfg c' = idx cfg c \<and> below_thresholds cfg (st F) c')"
    proof
      assume "\<exists>c' \<in> set (interior_cells cfg). idx cfg c' = idx cfg c \<and> below_thresholds cfg (st F) c'"
      then obtain c' where c': "c' \<in> set (interior_cells cfg)" "idx cfg c' = idx cfg c"
        "below_thresholds cfg (st F) c'" by blast
      have "c' = c" using d c c'(1,2) by (meson distinct_map inj_on_def)
      then show False using c'(3) nb by (simp add: f1)
    qed
    then have p: "mem s1 PF (idx cfg c) = st PF (idx cfg c)"
      unfolding s1 fold_init_trunc_PF by auto
    have "ta_size (state_zero\<lparr>mem := st\<rparr>) < ta_size s1"
      unfolding s1 using fold_init_trunc_size [of "state_zero\<lparr>mem := st\<rparr>" cfg "interior_cells cfg"] c nb
      by (auto simp: f1)
    then have "ta_size s1 \<noteq> 0" by (simp add: state_zero_def)
    then show ?thesis using p v [OF c, of PF] v [OF c, of F] by (simp add: f1)
  qed
qed

lemma set_difference_mem:
  "sorted xs \<Longrightarrow> sorted ys \<Longrightarrow> x \<in> set xs \<Longrightarrow> x \<notin> set ys \<Longrightarrow> x \<in> set (set_difference xs ys)"
proof (induction xs ys rule: set_difference.induct)
  case (1 ys)
  then show ?case by simp
next
  case (2 x xs)
  then show ?case by simp
next
  case (3 a xs b ys)
  then show ?case by (auto split: if_splits)
qed

lemma ex_list_mem: "k \<in> set (ExFF s) \<Longrightarrow> k \<notin> set (TBL s) \<Longrightarrow> k \<in> set (ex_list s)"
  by (simp add: ex_list_def set_sort_unique set_difference_mem)

lemma extrap_target_fault: "extrap_target cfg A k = Inl e \<Longrightarrow> e = OutOfRangeRead"
  by (auto simp: extrap_target_def Let_def split: if_splits option.splits)

lemma collect_Inl:
  assumes "x \<in> set xs" "isl x" "\<And>y e. y \<in> set xs \<Longrightarrow> y = Inl e \<Longrightarrow> e = e0"
  shows "collect xs = Inl e0"
  using assms
proof (induction xs)
  case Nil
  then show ?case by simp
next
  case (Cons y ys)
  show ?case
  proof (cases y)
    case (Inl e)
    then show ?thesis using Cons.prems(3) [of y e] by simp
  next
    case (Inr v)
    then have "x \<in> set ys" using Cons.prems(1,2) by auto
    then have "collect ys = Inl e0" using Cons.IH Cons.prems(2,3) by auto
    then show ?thesis using Inr by simp
  qed
qed

lemma extrapolate_fault:
  assumes "k \<in> set (ExFF s)" "k \<notin> set (TBL s)" "extrap_target cfg (mem s F) k = Inl OutOfRangeRead"
  shows "extrapolate cfg s = Inl OutOfRangeRead"
proof -
  have ne: "ExFF s \<noteq> []" using assms(1) by auto
  have m: "k \<in> set (ex_list s)" using assms(1,2) by (rule ex_list_mem)
  have "collect (map (extrap_target cfg (mem s F)) (ex_list s)) = Inl OutOfRangeRead"
  proof (rule collect_Inl [where x = "extrap_target cfg (mem s F) k"])
    show "extrap_target cfg (mem s F) k \<in> set (map (extrap_target cfg (mem s F)) (ex_list s))"
      using m by simp
    show "isl (extrap_target cfg (mem s F) k)" by (simp add: assms(3))
    show "\<And>y e. y \<in> set (map (extrap_target cfg (mem s F)) (ex_list s)) \<Longrightarrow> y = Inl e \<Longrightarrow> e = OutOfRangeRead"
      using extrap_target_fault by fastforce
  qed
  then show ?thesis using ne unfolding extrapolate_def Let_def ex_list_def [symmetric] by simp
qed

text \<open>The fall-back without a minimum.\<close>

lemma extrap_target_sentinel:
  fixes cfg :: config and A :: "int \<Rightarrow> real" and k :: int
  defines "ds \<equiv> dirs_of cfg A k"
  assumes ne: "candidates cfg ds \<noteq> []"
    and big: "list_all (\<lambda>t. real_of_int BIG_NUMBER \<le> \<bar>fst t\<bar>) (formed ds)"
    and avg: "\<bar>sum_list (candidates cfg ds) / real (length (candidates cfg ds))\<bar> > real_of_int BIG_NUMBER"
  shows "extrap_target cfg A k = Inl OutOfRangeRead"
proof -
  define a where "a = accum_of cfg A k"
  have af: "a = fold (dir_step cfg) ds accum0" by (simp add: a_def ds_def accum_of_fold)
  have su: "sum_acc a = sum_list (candidates cfg ds)" "count_acc a = int (length (candidates cfg ds))"
      "isEmpty a = (candidates cfg ds = [])"
    using fold_dir_step_sums [of cfg ds] by (simp_all add: af acc_sums_def)
  have mi: "acc_min ds a" using fold_dir_step_min [of ds cfg] by (simp add: af)
  have "\<not> list_ex (\<lambda>t. \<bar>fst t\<bar> < real_of_int BIG_NUMBER) (formed ds)"
    using big by (auto simp: list_ex_iff list_all_iff)
  then have m: "val_min_abs a = real_of_int BIG_NUMBER" "min_dir a = - 1"
    using mi by (auto simp: acc_min_def list_ex_iff)
  show ?thesis
    using ne avg by (simp add: extrap_target_def Let_def a_def [symmetric] su m H_at_def)
qed

lemma init_scan_Inr:
  assumes d: "distinct (map (idx cfg) (interior_cells cfg))"
    and z: "(\<Sum>c\<leftarrow>interior_cells cfg. WAVEFUNCTION cfg (xx1_of cfg (fst c)) (xx2_of cfg (snd c)))
                  * (H0 cfg * H1 cfg) \<noteq> 0"
  shows "\<exists>s1. init_scan cfg = Inr s1"
proof -
  define st0 where "st0 = init_wave cfg (mem state_zero)"
  have w: "st0 F (idx cfg c) = WAVEFUNCTION cfg (xx1_of cfg (fst c)) (xx2_of cfg (snd c))"
    if "c \<in> set (interior_cells cfg)" for c
    unfolding st0_def using d that by (rule init_wave_on)
  have "norm_sum cfg (interior_cells cfg) (st0 F) * (H0 cfg * H1 cfg) \<noteq> 0"
    unfolding norm_sum_eq using w z by (simp cong: map_cong)
  then have "\<exists>st. init_normalize cfg st0 = Inr st" by (simp add: init_normalize_def Let_def)
  then show ?thesis unfolding init_scan_def st0_def [symmetric] by auto
qed

lemma candidates_uniform:
  assumes l: "std_log cfg = log_real" "std_exp cfg = exp_real" and p: "0 < a" "0 < b"
    and u: "\<And>t. t \<in> set ds \<Longrightarrow> (fst t = 0 \<or> fst t = a) \<and> (fst (snd t) = 0 \<or> fst (snd t) = b)"
  shows "candidates cfg ds = replicate (length (formed ds)) (a\<^sup>2 / b)"
    and "list_all (\<lambda>t. fst t = a) (formed ds)"
proof -
  have f: "fst t = a \<and> fst (snd t) = b" if "t \<in> set (formed ds)" for t
    using that u [of t] by (auto simp: formed_def)
  show "list_all (\<lambda>t. fst t = a) (formed ds)" using f by (simp add: list_all_iff)
  have "concat (map (\<lambda>t. case geo_val cfg (fst t) (fst (snd t)) of None \<Rightarrow> [] | Some v \<Rightarrow> [v]) ts)
          = replicate (length ts) (a\<^sup>2 / b)"
    if "\<And>t. t \<in> set ts \<Longrightarrow> fst t = a \<and> fst (snd t) = b" for ts
    using that by (induction ts) (simp_all add: geo_val_real [OF l p])
  then show "candidates cfg ds = replicate (length (formed ds)) (a\<^sup>2 / b)"
    unfolding candidates_def using f by blast
qed

lemma not_below_thresholds:
  assumes "0 \<le> TolHd cfg"
    and "TolHd cfg \<le> \<bar>A (GridToIdx cfg (fst c) (snd c + 1)) - A (GridToIdx cfg (fst c) (snd c - 1))\<bar> / (2 * H1 cfg)"
  shows "\<not> below_thresholds cfg A c"
proof -
  define x where "x = \<bar>A (GridToIdx cfg (fst c + 1) (snd c)) - A (GridToIdx cfg (fst c - 1) (snd c))\<bar> / (2 * H0 cfg)"
  define y where "y = \<bar>A (GridToIdx cfg (fst c) (snd c + 1)) - A (GridToIdx cfg (fst c) (snd c - 1))\<bar> / (2 * H1 cfg)"
  have "(TolHd cfg)\<^sup>2 \<le> y\<^sup>2" using assms unfolding y_def by (intro power_mono)
  moreover have "0 \<le> x\<^sup>2" by simp
  moreover have "TolHd_sq cfg = (TolHd cfg)\<^sup>2" by (simp add: TolHd_sq_def power2_eq_square)
  ultimately have "TolHd_sq cfg \<le> x\<^sup>2 + y\<^sup>2" by linarith
  then show ?thesis unfolding below_thresholds_def x_def [symmetric] y_def [symmetric] by simp
qed

section \<open>A run on a fine grid with a pruned centre\<close>

lemma peak_fields:
  "EDGE cfg_peak = 2" "BoxShape0 cfg_peak = 9" "BoxShape1 cfg_peak = 9"
  "Box0 cfg_peak = - 4 / 1000000" "Box2 cfg_peak = - 4 / 1000000"
  "H0 cfg_peak = 1 / 1000000" "H1 cfg_peak = 1 / 1000000"
  "TolH cfg_peak = 10000000000000" "TolHd cfg_peak = 1 / 1000" "TolL cfg_peak = 1 / 100"
  "ExLimit cfg_peak = 1" "\<not> isFullGrid cfg_peak"
  "WAVEFUNCTION cfg_peak = Wavefunction_DW2 1 (1/2) (1/2) 0 0"
  "std_log cfg_peak = log_real" "std_exp cfg_peak = exp_real"
  "M1 cfg_peak = 9" "W1 cfg_peak = 9"
  by (simp_all add: cfg_peak_def cfg_small_def M1_def W1_def)

lemma peak_idx: "idx cfg_peak (i, j) = i * 9 + j" "GridToIdx cfg_peak i j = i * 9 + j"
  by (simp_all add: idx_def GridToIdx_def peak_fields)

lemma peak_interior: "interior_cells cfg_peak = box_cells 2 6 2 6"
  by (simp add: interior_cells_def peak_fields)

lemma peak_distinct: "distinct (map (idx cfg_peak) (interior_cells cfg_peak))"
  unfolding peak_interior by (rule distinct_idx_box) (simp_all add: peak_fields)

lemma W_peak_eq:
  "W_peak (i, j) = (1 / pi) * exp (- ((real_of_int i - 4) / 1000000)\<^sup>2)
                            * exp (- ((real_of_int j - 4) / 1000000)\<^sup>2)"
proof -
  have a: "- 2 * (1 / 2) * (- 4 / 1000000 + real_of_int i * (1 / 1000000) - 0)\<^sup>2
           = - ((real_of_int i - 4) / 1000000)\<^sup>2"
    by (simp add: power2_eq_square field_simps)
  have b: "- (1 / 2) * (1 / (1 * 1)) * ((- 4 / 1000000 + real_of_int j * (1 / 1000000) - 0)\<^sup>2 / (1 / 2))
           = - ((real_of_int j - 4) / 1000000)\<^sup>2"
    by (simp add: power2_eq_square field_simps)
  show ?thesis
    unfolding W_peak_def peak_fields Wavefunction_DW2_def xx1_of_def xx2_of_def fst_conv snd_conv a b
    by simp
qed

lemma W_peak_bounds: "0 < W_peak c" "W_peak c \<le> 1 / pi"
proof -
  obtain i j where c: "c = (i, j)" by (cases c)
  show "0 < W_peak c" unfolding c W_peak_eq by simp
  have "exp (- ((real_of_int i - 4) / 1000000)\<^sup>2) \<le> 1" "exp (- ((real_of_int j - 4) / 1000000)\<^sup>2) \<le> 1"
    by simp_all
  then have "exp (- ((real_of_int i - 4) / 1000000)\<^sup>2) * exp (- ((real_of_int j - 4) / 1000000)\<^sup>2) \<le> 1 * 1"
    by (intro mult_mono) simp_all
  then show "W_peak c \<le> 1 / pi" unfolding c W_peak_eq
    by (simp add: field_simps)
qed

lemma sum_list_upper:
  fixes f :: "'a \<Rightarrow> real"
  shows "(\<And>x. f x \<le> c) \<Longrightarrow> sum_list (map f xs) \<le> real (length xs) * c"
  by (induction xs) (auto simp: algebra_simps intro: add_mono)

lemma sum_list_lower:
  fixes f :: "'a \<Rightarrow> real"
  shows "(\<And>x. 0 \<le> f x) \<Longrightarrow> x \<in> set xs \<Longrightarrow> f x \<le> sum_list (map f xs)"
proof (induction xs)
  case Nil
  then show ?case by simp
next
  case (Cons y ys)
  have "0 \<le> sum_list (map f ys)" by (rule sum_list_nonneg) (use Cons.prems(1) in auto)
  then show ?case using Cons by (cases "x = y") (auto intro: add_increasing add_increasing2)
qed

lemma Z_peak_bounds: "1 / (pi * 1000000000000) \<le> Z_peak" "Z_peak \<le> 25 / (pi * 1000000000000)"
proof -
  have l: "length (interior_cells cfg_peak) = 25"
    by (simp add: peak_interior box_cells_def)
  have m: "(4, 4) \<in> set (interior_cells cfg_peak)" by (simp add: peak_interior set_box_cells)
  have w: "W_peak (4, 4) = 1 / pi" by (simp add: W_peak_eq)
  have "W_peak (4, 4) \<le> (\<Sum>c\<leftarrow>interior_cells cfg_peak. W_peak c)"
    by (rule sum_list_lower [OF _ m]) (simp add: less_imp_le W_peak_bounds)
  then show "1 / (pi * 1000000000000) \<le> Z_peak"
    unfolding Z_peak_def peak_fields w by (simp add: field_simps)
  have "(\<Sum>c\<leftarrow>interior_cells cfg_peak. W_peak c) \<le> real (length (interior_cells cfg_peak)) * (1 / pi)"
    by (rule sum_list_upper) (rule W_peak_bounds)
  then show "Z_peak \<le> 25 / (pi * 1000000000000)"
    unfolding Z_peak_def peak_fields l by (simp add: field_simps)
qed


lemma exp_bounds:
  fixes t :: real
  assumes "0 \<le> t" "t \<le> 1 / 2"
  shows "1 / 2 \<le> exp (- t)" "exp (- t) \<le> 1" "t / 2 \<le> 1 - exp (- t)"
proof -
  have a: "1 + t \<le> exp t" by (rule exp_ge_add_one_self)
  have b: "1 + (- t) \<le> exp (- t)" by (rule exp_ge_add_one_self)
  show "exp (- t) \<le> 1" using assms by simp
  show "1 / 2 \<le> exp (- t)" using b assms by linarith
  have p: "0 < 1 + t" using assms by simp
  have "exp (- t) = 1 / exp t" by (simp add: exp_minus field_simps)
  also have "\<dots> \<le> 1 / (1 + t)" using a p by (simp add: frac_le)
  finally have u: "exp (- t) \<le> 1 / (1 + t)" .
  have "0 \<le> t * (1 - t)" using assms by (intro mult_nonneg_nonneg) simp_all
  then have "1 \<le> (1 - t / 2) * (1 + t)" by (simp add: algebra_simps)
  then have "1 / (1 + t) \<le> 1 - t / 2" using p by (simp add: field_simps)
  then show "t / 2 \<le> 1 - exp (- t)" using u by linarith
qed


lemma peak_init:
  obtains s1 u q1 q4 where "init_scan cfg_peak = Inr s1"
    and "40000000000 \<le> u" "u \<le> 1000000000000" "1 / 2 \<le> q1" "q1 \<le> 1" "0 < q4"
        "q4 \<le> 1 - 2 / 1000000000000"
    and "mem s1 F 40 = u" "mem s1 F 39 = u * q1" "mem s1 F 41 = u * q1" "mem s1 F 31 = u * q1"
        "mem s1 F 49 = u * q1" "mem s1 F 38 = u * q4" "mem s1 F 42 = u * q4" "mem s1 F 22 = u * q4"
        "mem s1 F 58 = u * q4" "mem s1 F 37 = 0"
proof -
  define Z where "Z = (\<Sum>c\<leftarrow>interior_cells cfg_peak.
      WAVEFUNCTION cfg_peak (xx1_of cfg_peak (fst c)) (xx2_of cfg_peak (snd c))) * (H0 cfg_peak * H1 cfg_peak)"
  have Z: "Z = Z_peak" by (simp add: Z_def Z_peak_def W_peak_def)
  have zp: "0 < Z_peak"
  proof -
    have "(0::real) < 1 / (pi * 1000000000000)" by simp
    then show ?thesis using Z_peak_bounds(1) by linarith
  qed
  from init_scan_Inr [OF peak_distinct] zp obtain s1 where i: "init_scan cfg_peak = Inr s1"
    unfolding Z_def [symmetric] Z by auto
  have v: "mem s1 F (idx cfg_peak c) = W_peak c / Z_peak" if "c \<in> set (interior_cells cfg_peak)" for c
    using init_scan_fields(1) [OF peak_fields(12) peak_distinct i that]
    unfolding Z_def [symmetric] Z by (simp add: W_peak_def)
  define u where "u = (1 / pi) / Z_peak"
  define q1 where "q1 = exp (- ((1::real) / 1000000000000))"
  define q4 where "q4 = exp (- ((4::real) / 1000000000000))"
  have c: "(4, 4) \<in> set (interior_cells cfg_peak)" "(4, 3) \<in> set (interior_cells cfg_peak)"
    "(4, 5) \<in> set (interior_cells cfg_peak)" "(3, 4) \<in> set (interior_cells cfg_peak)"
    "(5, 4) \<in> set (interior_cells cfg_peak)" "(4, 2) \<in> set (interior_cells cfg_peak)"
    "(4, 6) \<in> set (interior_cells cfg_peak)" "(2, 4) \<in> set (interior_cells cfg_peak)"
    "(6, 4) \<in> set (interior_cells cfg_peak)"
    by (simp_all add: peak_interior set_box_cells)
  have w: "W_peak (4, 4) = 1 / pi"
    "W_peak (4, 3) = (1 / pi) * q1" "W_peak (4, 5) = (1 / pi) * q1"
    "W_peak (3, 4) = (1 / pi) * q1" "W_peak (5, 4) = (1 / pi) * q1"
    "W_peak (4, 2) = (1 / pi) * q4" "W_peak (4, 6) = (1 / pi) * q4"
    "W_peak (2, 4) = (1 / pi) * q4" "W_peak (6, 4) = (1 / pi) * q4"
    by (simp_all add: W_peak_eq q1_def q4_def power2_eq_square)
  have o: "37 \<notin> idx cfg_peak ` set (interior_cells cfg_peak)"
    by (auto simp: peak_interior set_box_cells peak_idx) presburger
  have ub: "40000000000 \<le> u" "u \<le> 1000000000000"
  proof -
    have p: "0 < pi * Z_peak" using zp by simp
    have "pi * Z_peak \<le> 25 / 1000000000000" using Z_peak_bounds(2) by (simp add: field_simps)
    then have "1 / (25 / 1000000000000) \<le> 1 / (pi * Z_peak)" using p by (intro frac_le) simp_all
    then show "40000000000 \<le> u" by (simp add: u_def)
    have "1 / 1000000000000 \<le> pi * Z_peak" using Z_peak_bounds(1) by (simp add: field_simps)
    then have "1 / (pi * Z_peak) \<le> 1 / (1 / 1000000000000)" by (intro frac_le) simp_all
    then show "u \<le> 1000000000000" by (simp add: u_def)
  qed
  have qb: "1 / 2 \<le> q1" "q1 \<le> 1" "0 < q4" "q4 \<le> 1 - 2 / 1000000000000"
    using exp_bounds [of "1 / 1000000000000"] exp_bounds [of "4 / 1000000000000"]
    by (simp_all add: q1_def q4_def)
  show ?thesis
  proof (rule that [OF i ub qb])
    show "mem s1 F 40 = u" using v [OF c(1)] by (simp add: peak_idx w u_def)
    show "mem s1 F 39 = u * q1" using v [OF c(2)] by (simp add: peak_idx w u_def)
    show "mem s1 F 41 = u * q1" using v [OF c(3)] by (simp add: peak_idx w u_def)
    show "mem s1 F 31 = u * q1" using v [OF c(4)] by (simp add: peak_idx w u_def)
    show "mem s1 F 49 = u * q1" using v [OF c(5)] by (simp add: peak_idx w u_def)
    show "mem s1 F 38 = u * q4" using v [OF c(6)] by (simp add: peak_idx w u_def)
    show "mem s1 F 42 = u * q4" using v [OF c(7)] by (simp add: peak_idx w u_def)
    show "mem s1 F 22 = u * q4" using v [OF c(8)] by (simp add: peak_idx w u_def)
    show "mem s1 F 58 = u * q4" using v [OF c(9)] by (simp add: peak_idx w u_def)
    show "mem s1 F 37 = 0" by (rule init_scan_off [OF i o])
  qed
qed

section \<open>The stages of a full-grid step\<close>

text \<open>
  Claim C1. In full-grid mode the update of a time step (\<open>case3\<close>) leaves, at every cell
  \<open>(i, j)\<close> of the edge-free interior, the four stage fields \<open>K1 .. K4\<close> equal to the
  stage operator applied to \<open>F\<close>, \<open>F + K1/2\<close>, \<open>F + K2/2\<close> and \<open>F + K3\<close>, with one
  and the same equilibrium field in all four stages (the one the moment update of this step
  wrote), and the tentative field \<open>FF\<close> equal to \<open>F + (K1 + 2 K2 + 2 K3 + K4)/6\<close>, which is
  the accumulated sum \<open>F + K1/6 + K2/3 + K3/3 + K4/6\<close>; \<open>F\<close> itself is not changed.
\<close>

theorem rk4_full_grid_stages:
  fixes cfg :: config and s :: state and i j :: int
  assumes "0 \<le> EDGE cfg"
    and "EDGE cfg \<le> i" and "i < BoxShape0 cfg - EDGE cfg"
    and "EDGE cfg \<le> j" and "j < BoxShape1 cfg - EDGE cfg"
  defines "s' \<equiv> case3 cfg s"
  defines "Fo \<equiv> field cfg (mem s F)" and "feq \<equiv> field cfg (mem s' Feq_loc)"
  defines "K1 \<equiv> field cfg (mem s' KK1)" and "K2 \<equiv> field cfg (mem s' KK2)"
    and "K3 \<equiv> field cfg (mem s' KK3)" and "K4 \<equiv> field cfg (mem s' KK4)"
  shows "K1 i j = stage_operator cfg Fo feq i j
       \<and> K2 i j = stage_operator cfg (\<lambda>x y. Fo x y + K1 x y / 2) feq i j
       \<and> K3 i j = stage_operator cfg (\<lambda>x y. Fo x y + K2 x y / 2) feq i j
       \<and> K4 i j = stage_operator cfg (\<lambda>x y. Fo x y + K3 x y) feq i j
       \<and> field cfg (mem s' FF) i j = Fo i j + (K1 i j + 2 * K2 i j + 2 * K3 i j + K4 i j) / 6
       \<and> field cfg (mem s' FF) i j = Fo i j + K1 i j / 6 + K2 i j / 3 + K3 i j / 3 + K4 i j / 6
       \<and> mem s' Feq_loc = moments_feq_full cfg (mem s) Feq_loc
       \<and> mem s' F = mem s F"
proof -
  define st where "st = moments_feq_full cfg (mem s)"
  have m: "mem s' = rk4 cfg (interior_cells cfg) st"
    by (simp add: s'_def case3_def st_def)
  have d: "distinct (map (idx cfg) (interior_cells cfg))"
    unfolding interior_cells_def using assms(1) by (intro distinct_idx_box) (simp_all add: W1_def)
  have c: "(i, j) \<in> set (interior_cells cfg)"
    using assms(2-5) by (simp add: interior_cells_def set_box_cells)
  have F0: "st F = mem s F" by (simp add: st_def moments_feq_full_frame)
  note r = rk4_cells [OF d c, of st, folded m]
  have Q: "mem s' Feq_loc = st Feq_loc" by (rule r(7))
  have Q': "mem s' Feq_loc = moments_feq_full cfg (mem s) Feq_loc" using Q by (simp add: st_def)
  have P: "mem s' F = mem s F" using r(6) F0 by simp
  have "K1 i j = stage_operator cfg Fo feq i j"
    using r(1) by (simp add: K1_def Fo_def feq_def Q F0)
  moreover have "K2 i j = stage_operator cfg (\<lambda>x y. Fo x y + K1 x y / 2) feq i j"
    using r(2) by (simp add: K1_def K2_def Fo_def feq_def Q F0)
  moreover have "K3 i j = stage_operator cfg (\<lambda>x y. Fo x y + K2 x y / 2) feq i j"
    using r(3) by (simp add: K2_def K3_def Fo_def feq_def Q F0)
  moreover have "K4 i j = stage_operator cfg (\<lambda>x y. Fo x y + K3 x y) feq i j"
    using r(4) by (simp add: K3_def K4_def Fo_def feq_def Q F0)
  moreover have ff: "field cfg (mem s' FF) i j = Fo i j + K1 i j / 6 + K2 i j / 3 + K3 i j / 3 + K4 i j / 6"
    using r(5) by (simp add: K1_def K2_def K3_def K4_def Fo_def F0)
  moreover have "field cfg (mem s' FF) i j = Fo i j + (K1 i j + 2 * K2 i j + 2 * K3 i j + K4 i j) / 6"
    using ff by (simp add: add_divide_distrib)
  ultimately show ?thesis using Q' P by simp
qed

theorem rk4_full_grid_stages_witness:
  "(0::int) \<le> EDGE (cfg_small\<lparr>isFullGrid := True\<rparr>)
   \<and> EDGE (cfg_small\<lparr>isFullGrid := True\<rparr>) \<le> 3
   \<and> 3 < BoxShape0 (cfg_small\<lparr>isFullGrid := True\<rparr>) - EDGE (cfg_small\<lparr>isFullGrid := True\<rparr>)
   \<and> 3 < BoxShape1 (cfg_small\<lparr>isFullGrid := True\<rparr>) - EDGE (cfg_small\<lparr>isFullGrid := True\<rparr>)
   \<and> field (cfg_small\<lparr>isFullGrid := True\<rparr>) (mem (case3 (cfg_small\<lparr>isFullGrid := True\<rparr>) state_zero) KK1) 3 3
       = stage_operator (cfg_small\<lparr>isFullGrid := True\<rparr>) (field (cfg_small\<lparr>isFullGrid := True\<rparr>) (mem state_zero F))
           (field (cfg_small\<lparr>isFullGrid := True\<rparr>) (mem (case3 (cfg_small\<lparr>isFullGrid := True\<rparr>) state_zero) Feq_loc)) 3 3
   \<and> mem (case3 (cfg_small\<lparr>isFullGrid := True\<rparr>) state_zero) F = mem state_zero F"
  using rk4_full_grid_stages [of "cfg_small\<lparr>isFullGrid := True\<rparr>" 3 3 state_zero]
  by (simp add: cfg_small_def)

section \<open>Normalization\<close>

text \<open>
  Claim C2. When the normalization factor \<open>Z = h\<^sub>x h\<^sub>p \<Sum> FF\<close> over the update region
  (the live cells of the bounding box in truncated mode, the edge-free interior in full-grid
  mode) is not zero, normalization succeeds and afterwards \<open>h\<^sub>x h\<^sub>p \<Sum> F\<close> over the same
  region is 1; on every cell of the region \<open>F\<close>, \<open>FF\<close> and \<open>PF\<close> hold the same value,
  the old \<open>FF\<close> divided by \<open>Z\<close>. The column indices of the region are assumed to lie
  within a row of the arrays.
\<close>

theorem normalize_unit_integral:
  assumes Z: "norm_factor cfg s \<noteq> 0" and R: "region_in_rows cfg s"
  shows "\<exists>s'. normalize cfg s = Inr s'
       \<and> update_region cfg s' = update_region cfg s
       \<and> H0 cfg * H1 cfg * (\<Sum>c\<leftarrow>update_region cfg s'. mem s' F (idx cfg c)) = 1
       \<and> list_all (\<lambda>c. mem s' F (idx cfg c) = mem s FF (idx cfg c) / norm_factor cfg s
                     \<and> mem s' FF (idx cfg c) = mem s' F (idx cfg c)
                     \<and> mem s' PF (idx cfg c) = mem s' F (idx cfg c)) (update_region cfg s)"
proof -
  define cs where "cs = update_region cfg s"
  define Zv where "Zv = norm_factor cfg s"
  define s' where "s' = s\<lparr>mem := fold (scale_cell cfg (1 / Zv)) cs (mem s)\<rparr>"
  have "norm_sum cfg [] (mem s FF) = 0" by (simp add: norm_sum_def)
  then have ne: "cs \<noteq> []" using Z by (auto simp: norm_factor_def cs_def)
  have n: "normalize cfg s = Inr s'"
    using Z ne by (simp add: normalize_def Let_def cs_def Zv_def s'_def)
  have d: "distinct (map (idx cfg) cs)" unfolding cs_def using R by (rule distinct_update_region)
  have v: "mem s' b (idx cfg c) = mem s FF (idx cfg c) / Zv" if "c \<in> set cs" "b \<in> {FF, F, PF}" for c b
    using fold_scale_on [OF d that, of "1 / Zv" "mem s"] by (simp add: s'_def)
  have u: "update_region cfg s' = cs"
    by (simp add: update_region_def live_cells_def s'_def cs_def)
  have "(\<Sum>c\<leftarrow>cs. mem s' F (idx cfg c)) = (\<Sum>c\<leftarrow>cs. mem s FF (idx cfg c) / Zv)"
    by (rule arg_cong [where f = sum_list], rule map_cong) (simp_all add: v)
  also have "\<dots> = (\<Sum>c\<leftarrow>cs. mem s FF (idx cfg c) * (1 / Zv))" by simp
  also have "\<dots> = (\<Sum>c\<leftarrow>cs. mem s FF (idx cfg c)) * (1 / Zv)"
    by (rule sum_list_mult_const)
  finally have e: "(\<Sum>c\<leftarrow>cs. mem s' F (idx cfg c)) = (\<Sum>c\<leftarrow>cs. mem s FF (idx cfg c)) / Zv" by simp
  have z: "Zv = (\<Sum>c\<leftarrow>cs. mem s FF (idx cfg c)) * (H0 cfg * H1 cfg)"
    by (simp add: Zv_def norm_factor_def norm_sum_eq cs_def)
  have "H0 cfg * H1 cfg * (\<Sum>c\<leftarrow>cs. mem s' F (idx cfg c)) = Zv / Zv"
    unfolding e using z by simp
  then have one: "H0 cfg * H1 cfg * (\<Sum>c\<leftarrow>cs. mem s' F (idx cfg c)) = 1"
    using Z by (simp add: Zv_def)
  have "list_all (\<lambda>c. mem s' F (idx cfg c) = mem s FF (idx cfg c) / Zv
                     \<and> mem s' FF (idx cfg c) = mem s' F (idx cfg c)
                     \<and> mem s' PF (idx cfg c) = mem s' F (idx cfg c)) cs"
    by (simp add: list_all_iff v)
  then show ?thesis using n u one by (auto simp: cs_def Zv_def)
qed

theorem normalize_unit_integral_witness:
  "norm_factor (cfg_small\<lparr>isFullGrid := True\<rparr>) (state_one_cell\<lparr>mem := (\<lambda>b k. if k = 24 \<and> b = FF then 2 else 0)\<rparr>) \<noteq> 0
   \<and> region_in_rows (cfg_small\<lparr>isFullGrid := True\<rparr>) (state_one_cell\<lparr>mem := (\<lambda>b k. if k = 24 \<and> b = FF then 2 else 0)\<rparr>)
   \<and> (\<exists>s'. normalize (cfg_small\<lparr>isFullGrid := True\<rparr>) (state_one_cell\<lparr>mem := (\<lambda>b k. if k = 24 \<and> b = FF then 2 else 0)\<rparr>) = Inr s'
        \<and> H0 cfg_small * H1 cfg_small * (\<Sum>c\<leftarrow>interior_cells cfg_small. mem s' F (idx cfg_small c)) = 1
        \<and> mem s' F 24 = 1 \<and> mem s' FF 24 = 1 \<and> mem s' PF 24 = 1)"
proof -
  let ?c = "cfg_small\<lparr>isFullGrid := True\<rparr>"
  let ?s = "state_one_cell\<lparr>mem := (\<lambda>b k. if k = 24 \<and> b = FF then 2 else 0)\<rparr>"
  have ic: "interior_cells ?c = interior_cells cfg_small" by (simp add: interior_cells_def)
  have ix: "idx ?c = idx cfg_small" by (simp add: idx_def GridToIdx_def W1_def fun_eq_iff)
  have cells: "interior_cells cfg_small = [(2,2),(2,3),(2,4),(3,2),(3,3),(3,4),(4,2),(4,3),(4,4)]"
    by (simp add: interior_cells_def box_cells_def cfg_small_def upto.simps)
  have z: "norm_factor ?c ?s = 2"
    by (simp add: norm_factor_def norm_sum_eq update_region_def ic ix cells)
       (simp add: idx_def GridToIdx_def W1_def cfg_small_def)
  have r: "region_in_rows ?c ?s" by (simp add: region_in_rows_def cfg_small_def)
  have m: "(3, 3) \<in> set (update_region ?c ?s)" by (simp add: update_region_def ic cells)
  have k: "idx cfg_small (3, 3) = 24" by (simp add: idx_def GridToIdx_def W1_def cfg_small_def)
  from normalize_unit_integral [of ?c ?s] z r
  obtain s' where s': "normalize ?c ?s = Inr s'"
      "update_region ?c s' = update_region ?c ?s"
      "H0 ?c * H1 ?c * (\<Sum>c\<leftarrow>update_region ?c s'. mem s' F (idx ?c c)) = 1"
      "list_all (\<lambda>c. mem s' F (idx ?c c) = mem ?s FF (idx ?c c) / norm_factor ?c ?s
                     \<and> mem s' FF (idx ?c c) = mem s' F (idx ?c c)
                     \<and> mem s' PF (idx ?c c) = mem s' F (idx ?c c)) (update_region ?c ?s)"
    by auto
  have "mem s' F 24 = 1 \<and> mem s' FF 24 = 1 \<and> mem s' PF 24 = 1"
    using s'(4) m by (auto simp: list_all_iff ix k z dest!: bspec [where x = "(3, 3)"])
  moreover have "H0 cfg_small * H1 cfg_small * (\<Sum>c\<leftarrow>interior_cells cfg_small. mem s' F (idx cfg_small c)) = 1"
    using s'(3) by (simp add: s'(2) update_region_def ic ix)
  ultimately show ?thesis using z r s'(1) by auto
qed

section \<open>The moments of a row\<close>



section \<open>Cells outside the mask hold no density\<close>

text \<open>
  Claim C4 (as amended). In truncated-grid mode, provided the initial truncation scan leaves
  at least one live cell, after the initialization and at the end of every time step every
  cell whose mask entry is false holds \<open>F = 0\<close>. A time step preserves this
  property from any state that has it; and the mask update of the truncation phase
  establishes it on every cell of the bounding box, whatever the state before.
\<close>

theorem mask_consistency:
  "\<not> isFullGrid cfg \<longrightarrow>
     (\<forall>s1 n s. init_scan cfg = Inr s1 \<and> ta_size s1 \<noteq> 0 \<and> Evolve cfg n = Inr s \<longrightarrow>
        (\<forall>k. \<not> TAMask s k \<longrightarrow> mem s F k = 0))
   \<and> (\<forall>s s'. (\<forall>k. \<not> TAMask s k \<longrightarrow> mem s F k = 0) \<and> step cfg s = Inr s' \<longrightarrow>
        (\<forall>k. \<not> TAMask s' k \<longrightarrow> mem s' F k = 0))
   \<and> (\<forall>s. \<forall>c \<in> set (box_cells (x1_min s) (x1_max s) (x2_min s) (x2_max s)).
        \<not> TAMask (update_mask cfg s) (idx cfg c) \<longrightarrow> mem (update_mask cfg s) F (idx cfg c) = 0)"
proof (intro impI conjI allI ballI)
  fix s1 n s k
  assume "\<not> isFullGrid cfg" "init_scan cfg = Inr s1 \<and> ta_size s1 \<noteq> 0 \<and> Evolve cfg n = Inr s"
    and "\<not> TAMask s k"
  then show "mem s F k = 0" using Evolve_consistent [of cfg s1 n s] by (simp add: mask_consistent_def)
next
  fix s s' k
  assume "\<not> isFullGrid cfg" "(\<forall>k. \<not> TAMask s k \<longrightarrow> mem s F k = 0) \<and> step cfg s = Inr s'"
    and "\<not> TAMask s' k"
  then show "mem s' F k = 0" using step_consistent [of cfg s s'] by (simp add: mask_consistent_def)
next
  fix s c
  assume "c \<in> set (box_cells (x1_min s) (x1_max s) (x2_min s) (x2_max s))"
    and "\<not> TAMask (update_mask cfg s) (idx cfg c)"
  then show "mem (update_mask cfg s) F (idx cfg c) = 0" by (rule update_mask_box)
qed

theorem mask_consistency_witness:
  "\<not> isFullGrid cfg_cell
   \<and> \<not> isl (init_scan cfg_cell) \<and> ta_size (projr (init_scan cfg_cell)) = 1
   \<and> \<not> isl (Evolve cfg_cell 3)
   \<and> TAMask (projr (Evolve cfg_cell 3)) 12 \<and> mem (projr (Evolve cfg_cell 3)) F 12 = 1
   \<and> \<not> TAMask (projr (Evolve cfg_cell 3)) 11 \<and> mem (projr (Evolve cfg_cell 3)) F 11 = 0"
proof -
  let ?s1 = "state_zero\<lparr>mem := st_cell, TAMask := (\<lambda>k. k = 12), ta_size := 1\<rparr>"
  have f: "\<not> isFullGrid cfg_cell" by (simp add: cell_fields)
  have i: "Evolve_init cfg_cell = Inr (init_finish cfg_cell ?s1)" by (simp add: Evolve_init_def init_scan_live)
  have "one_live (init_finish cfg_cell ?s1)"
    using init_ring_live by (simp add: init_finish_def cell_fields one_live_def init_moments_frame)
       (simp add: init_moments_def)
  from steps_cell [OF this, of 3] obtain s where
    s: "steps 3 cfg_cell (init_finish cfg_cell ?s1) = Inr s" "one_live s" by blast
  have e: "Evolve cfg_cell 3 = Inr s" unfolding Evolve_def i using s(1) by simp
  have m: "TAMask s 12" "\<not> TAMask s 11" "mem s F 12 = 1" using s(2) by (simp_all add: one_live_def)
  have "mem s F 11 = 0"
    using mask_consistency [of cfg_cell] f init_scan_live e m(2) by auto
  then show ?thesis unfolding e using f m by (simp add: init_scan_live)
qed

text \<open>
  The claim as it was stated has no condition on the initial truncation. When the scan
  finds every cell below the thresholds (the branch \<^verbatim>\<open>ta_size == 0\<close>, \<^verbatim>\<open>TA is empty\<close>)
  the field is not zeroed, the bounding box stays empty, and every later step leaves
  field and mask as they are: on the 5 x 5 grid with \<open>TolH = 2\<close> the cell \<open>(2, 2)\<close> holds
  \<open>F = 1\<close> outside the mask at the end of the first step.
\<close>

theorem mask_consistency_empty_counterexample:
  "\<not> isFullGrid cfg_coarse
   \<and> \<not> isl (Evolve cfg_coarse 1)
   \<and> \<not> TAMask (projr (Evolve cfg_coarse 1)) 12
   \<and> mem (projr (Evolve cfg_coarse 1)) F 12 = 1"
proof -
  have f: "\<not> isFullGrid cfg_coarse" by (simp add: cfg_coarse_def cfg_cell_fields)
  from steps_idle [OF f init_coarse(2), of 1] obtain s' where
    s': "steps 1 cfg_coarse (init_finish cfg_coarse (state_zero\<lparr>mem := put st_cell PF 12 0\<rparr>)) = Inr s'"
      "idle s'" "mem s' = mem (init_finish cfg_coarse (state_zero\<lparr>mem := put st_cell PF 12 0\<rparr>))"
    by blast
  have e: "Evolve cfg_coarse 1 = Inr s'" unfolding Evolve_def init_coarse(1) using s'(1) by simp
  show ?thesis unfolding e using f s'(2,3) init_coarse(3) by (simp add: idle_def)
qed

section \<open>The value assigned to an extrapolation target\<close>

text \<open>
  What the extrapolation assigns at a cell \<open>k\<close> of the target list of a pass. In each of the
  four directions \<open>-x\<close>, \<open>+x\<close>, \<open>-p\<close>, \<open>+p\<close> whose nearest value \<open>f\<^sub>1\<close> and second-nearest
  value \<open>f\<^sub>2\<close> are both non-zero the candidate \<^verbatim>\<open>exp(2.0 * std::log(f1) - std::log(f2))\<close>
  is formed, and the candidates that are neither NaN nor infinite are kept. With no
  candidate kept \<open>F(k)\<close> is left as it is. Otherwise, when some contributing neighbour has a
  magnitude below 2147483647, there is a contributing neighbour \<open>f\<^sub>m\<^sub>i\<^sub>n\<close> of smallest
  magnitude such that \<open>F(k)\<close> becomes the average of the candidates kept, or
  \<open>f\<^sub>m\<^sub>i\<^sub>n exp(- ExReduce h)\<close> with \<open>h\<close> the grid step of that neighbour's direction when the
  magnitude of the average exceeds the magnitude of \<open>f\<^sub>m\<^sub>i\<^sub>n\<close>.
\<close>

lemma extrapolate_assigns:
  fixes cfg :: config and s s' :: state and k :: int
  assumes "ExFF s \<noteq> []" and "extrapolate cfg s = Inr s'" and "k \<in> set (ex_list s)"
  defines "ds \<equiv> dirs_of cfg (mem s F) k"
  defines "avg \<equiv> sum_list (candidates cfg ds) / real (length (candidates cfg ds))"
  shows "(candidates cfg ds = [] \<longrightarrow> mem s' F k = mem s F k)
       \<and> (candidates cfg ds \<noteq> [] \<and> list_ex (\<lambda>t. \<bar>fst t\<bar> < real_of_int BIG_NUMBER) (formed ds) \<longrightarrow>
            list_ex (\<lambda>t. list_all (\<lambda>t'. \<bar>fst t\<bar> \<le> \<bar>fst t'\<bar>) (formed ds)
                       \<and> mem s' F k =
                           (if \<bar>avg\<bar> > \<bar>fst t\<bar>
                            then fst t * exp (- ExReduce cfg * (if snd (snd t) = 0 then H0 cfg else H1 cfg))
                            else avg))
                    (formed ds))"
proof -
  from assms(1,2) obtain rs where c: "collect (map (extrap_target cfg (mem s F)) (ex_list s)) = Inr rs"
    and m: "mem s' = (mem s)(F := assign_F (ex_list s) rs (mem s F))"
    by (rule extrapolate_mem)
  from assms(3) obtain n where n: "n < length (ex_list s)" "ex_list s ! n = k"
    by (auto simp: in_set_conv_nth)
  have l: "length rs = length (ex_list s)" using collect_map_Inr(1) [OF c] .
  have r: "extrap_target cfg (mem s F) k = Inr (rs ! n)"
    using collect_map_Inr(2) [OF c n(1)] n(2) by simp
  have d: "distinct (ex_list s)" by (simp add: ex_list_def distinct_sort_unique)
  have v: "mem s' F k = (if fst (rs ! n) then snd (rs ! n) else mem s F k)"
    using assign_F_in [OF d l n(1), of "mem s F"] n(2) by (simp add: m)
  note t = extrap_target_value [of cfg "mem s F" k, folded ds_def, folded avg_def]
  have one: "candidates cfg ds = [] \<longrightarrow> mem s' F k = mem s F k"
    using t r v by auto
  have two: "candidates cfg ds \<noteq> [] \<and> list_ex (\<lambda>t. \<bar>fst t\<bar> < real_of_int BIG_NUMBER) (formed ds) \<longrightarrow>
            list_ex (\<lambda>t. list_all (\<lambda>t'. \<bar>fst t\<bar> \<le> \<bar>fst t'\<bar>) (formed ds)
                       \<and> mem s' F k =
                           (if \<bar>avg\<bar> > \<bar>fst t\<bar>
                            then fst t * exp (- ExReduce cfg * (if snd (snd t) = 0 then H0 cfg else H1 cfg))
                            else avg))
                    (formed ds)"
  proof
    assume h: "candidates cfg ds \<noteq> [] \<and> list_ex (\<lambda>t. \<bar>fst t\<bar> < real_of_int BIG_NUMBER) (formed ds)"
    with t obtain t0 where t0: "t0 \<in> set (formed ds)" "list_all (\<lambda>t'. \<bar>fst t0\<bar> \<le> \<bar>fst t'\<bar>) (formed ds)"
      "extrap_target cfg (mem s F) k =
          Inr (True, if \<bar>avg\<bar> > \<bar>fst t0\<bar>
                     then fst t0 * exp (- ExReduce cfg * (if snd (snd t0) = 0 then H0 cfg else H1 cfg))
                     else avg)"
      unfolding list_ex_iff by blast
    have "mem s' F k = (if \<bar>avg\<bar> > \<bar>fst t0\<bar>
                     then fst t0 * exp (- ExReduce cfg * (if snd (snd t0) = 0 then H0 cfg else H1 cfg))
                     else avg)"
      using t0(3) r v by simp
    then show "list_ex (\<lambda>t. list_all (\<lambda>t'. \<bar>fst t\<bar> \<le> \<bar>fst t'\<bar>) (formed ds)
                       \<and> mem s' F k =
                           (if \<bar>avg\<bar> > \<bar>fst t\<bar>
                            then fst t * exp (- ExReduce cfg * (if snd (snd t) = 0 then H0 cfg else H1 cfg))
                            else avg))
                    (formed ds)"
      using t0(1,2) unfolding list_ex_iff by blast
  qed
  show ?thesis using one two by blast
qed

text \<open>On the state with the decaying tail, with the library functions taken without
  rounding: the target \<open>(5, 4)\<close> has the single candidate 1 and receives it.\<close>

lemma extrapolate_assigns_tail:
  "ExFF state_tail \<noteq> []
   \<and> 49 \<in> set (ex_list state_tail)
   \<and> candidates cfg_fine (dirs_of cfg_fine (mem state_tail F) 49) = [1]
   \<and> list_ex (\<lambda>t. \<bar>fst t\<bar> < real_of_int BIG_NUMBER) (formed (dirs_of cfg_fine (mem state_tail F) 49))
   \<and> (\<exists>s'. extrapolate cfg_fine state_tail = Inr s' \<and> mem s' F 49 = 1)"
proof -
  let ?A = "\<lambda>k::int. if k = 40 then 2 else if k = 31 then (4::real) else 0"
  have f: "mem state_tail F = ?A" by (simp add: state_tail_def fun_eq_iff)
  have e: "ex_list state_tail = [39, 41, 49]"
    by (simp add: ex_list_def state_tail_def state_zero_def sort_unique_def)
  have d49: "dirs_of cfg_fine ?A 49 = [(2, 4, 0), (0, 0, 0), (0, 0, 1), (0, 0, 1)]"
    by (simp add: dirs_of_def Let_def M1_fine sdiv_9 GridToIdx_def)
  have d39: "dirs_of cfg_fine ?A 39 = [(0, 0, 0), (0, 0, 0), (0, 0, 1), (2, 0, 1)]"
    by (simp add: dirs_of_def Let_def M1_fine sdiv_9 GridToIdx_def)
  have d41: "dirs_of cfg_fine ?A 41 = [(0, 0, 0), (0, 0, 0), (2, 0, 1), (0, 0, 1)]"
    by (simp add: dirs_of_def Let_def M1_fine sdiv_9 GridToIdx_def)
  have l: "std_log cfg_fine = log_real" "std_exp cfg_fine = exp_real"
    by (simp_all add: cfg_fine_def cfg_small_def)
  have g: "geo_val cfg_fine 2 4 = Some 1" using geo_val_real [OF l, of 2 4] by simp
  have fm: "formed (dirs_of cfg_fine ?A 49) = [(2, 4, 0)]" by (simp add: d49 formed_def)
  have c: "candidates cfg_fine (dirs_of cfg_fine ?A 49) = [1]" by (simp add: candidates_def fm g)
  have x49: "extrap_target cfg_fine ?A 49 = Inr (True, 1)"
    by (simp add: extrap_target_def accum_of_fold d49 dir_step_def extrap_dir_def accum0_def g BIG_NUMBER_def)
  have x39: "extrap_target cfg_fine ?A 39 = Inr (False, 0)"
    by (simp add: extrap_target_def accum_of_fold d39 dir_step_def extrap_dir_def accum0_def)
  have x41: "extrap_target cfg_fine ?A 41 = Inr (False, 0)"
    by (simp add: extrap_target_def accum_of_fold d41 dir_step_def extrap_dir_def accum0_def)
  have ne: "ExFF state_tail \<noteq> []" by (simp add: state_tail_def)
  obtain s' where s': "extrapolate cfg_fine state_tail = Inr s'"
    unfolding extrapolate_def Let_def ex_list_def [symmetric] e f
    by (simp add: x39 x41 x49 ne)
  have "mem s' F 49 = 1"
    using extrapolate_assigns [OF ne s', of 49] by (simp add: e f c fm BIG_NUMBER_def)
  then show ?thesis using ne e c fm s' by (simp add: f BIG_NUMBER_def)
qed

text \<open>
  Claim C5. For every extrapolation target the average of the finite candidates is
  assigned, except that the value \<open>f\<^sub>m\<^sub>i\<^sub>n exp(- ExReduce h\<^sub>d)\<close> is assigned when the magnitude
  of the average exceeds the magnitude of \<open>f\<^sub>m\<^sub>i\<^sub>n\<close>, the contributing neighbour of smallest
  magnitude. The source searches that neighbour with a running minimum that starts from the
  constant \<^verbatim>\<open>BIG_NUMBER = 2147483647\<close> with \<^verbatim>\<open>min_dir = -1\<close>, so it finds none when
  every contributing neighbour is at least that large. This happens in the run of
  \<open>cfg_peak\<close>: the initial scan takes the centre \<open>(4, 4)\<close>, linear index 40, out of the mask
  and zeroes it, its neighbours hold a density of more than \<open>10\<^sup>1\<^sup>0\<close>, and the first pass of
  the first time step has the centre as a target. There the average of the candidates
  exceeds 2147483647, the fall-back reads \<^verbatim>\<open>H[min_dir]\<close> with \<^verbatim>\<open>min_dir = -1\<close>, outside
  the vector, and no value of the kind the claim describes is assigned: the step ends
  with the fault.
\<close>

theorem extrapolate_fallback_without_minimum:
  "\<not> isl (Evolve cfg_peak 0)
   \<and> mem (projr (Evolve cfg_peak 0)) F 40 = 0
   \<and> 40 \<in> set (ex_list (pass_start cfg_peak (step_head cfg_peak (projr (Evolve cfg_peak 0)))))
   \<and> candidates cfg_peak (dirs_of cfg_peak (mem (projr (Evolve cfg_peak 0)) F) 40) \<noteq> []
   \<and> list_all (\<lambda>t. real_of_int BIG_NUMBER \<le> \<bar>fst t\<bar>)
        (formed (dirs_of cfg_peak (mem (projr (Evolve cfg_peak 0)) F) 40))
   \<and> real_of_int BIG_NUMBER
       < \<bar>sum_list (candidates cfg_peak (dirs_of cfg_peak (mem (projr (Evolve cfg_peak 0)) F) 40))
          / real (length (candidates cfg_peak (dirs_of cfg_peak (mem (projr (Evolve cfg_peak 0)) F) 40)))\<bar>
   \<and> extrap_target cfg_peak (mem (projr (Evolve cfg_peak 0)) F) 40 = Inl OutOfRangeRead
   \<and> Evolve cfg_peak 1 = Inl OutOfRangeRead"
proof -
  from peak_init obtain s1 u q1 q4 where i: "init_scan cfg_peak = Inr s1"
    and ub: "40000000000 \<le> u" "u \<le> 1000000000000"
    and qb: "1 / 2 \<le> q1" "q1 \<le> 1" "0 < q4" "q4 \<le> 1 - 2 / 1000000000000"
    and v: "mem s1 F 40 = u" "mem s1 F 39 = u * q1" "mem s1 F 41 = u * q1" "mem s1 F 31 = u * q1"
        "mem s1 F 49 = u * q1" "mem s1 F 38 = u * q4" "mem s1 F 42 = u * q4" "mem s1 F 22 = u * q4"
        "mem s1 F 58 = u * q4" "mem s1 F 37 = 0"
    by blast
  note sf = init_scan_fields [OF peak_fields(12) peak_distinct i]
  have c: "(4, 4) \<in> set (interior_cells cfg_peak)" "(4, 3) \<in> set (interior_cells cfg_peak)"
    "(4, 2) \<in> set (interior_cells cfg_peak)"
    by (simp_all add: peak_interior set_box_cells)
  text \<open>The scan.\<close>
  have b44: "below_thresholds cfg_peak (mem s1 F) (4, 4)"
    using ub by (simp add: below_thresholds_def peak_idx peak_fields v TolHd_sq_def)
  have a1: "2 / 25 \<le> u * (1 - q4)"
  proof -
    have "40000000000 * (2 / 1000000000000) \<le> u * (1 - q4)"
      using ub qb by (intro mult_mono) simp_all
    then show ?thesis by simp
  qed
  have a2: "20000000000 \<le> u * q1"
  proof -
    have "40000000000 * (1 / 2) \<le> u * q1" using ub qb by (intro mult_mono) simp_all
    then show ?thesis by simp
  qed
  have n43: "\<not> below_thresholds cfg_peak (mem s1 F) (4, 3)"
  proof (rule not_below_thresholds)
    have "2 / 25 \<le> \<bar>u - u * q4\<bar>" using a1 by (simp add: algebra_simps)
    then show "TolHd cfg_peak \<le> \<bar>mem s1 F (GridToIdx cfg_peak (fst (4, 3)) (snd (4, 3) + 1))
        - mem s1 F (GridToIdx cfg_peak (fst (4, 3)) (snd (4, 3) - 1))\<bar> / (2 * H1 cfg_peak)"
      by (simp add: peak_idx peak_fields v)
  qed (simp add: peak_fields)
  have n42: "\<not> below_thresholds cfg_peak (mem s1 F) (4, 2)"
  proof (rule not_below_thresholds)
    have "20000000000 \<le> \<bar>u * q1\<bar>" using a2 by simp
    then show "TolHd cfg_peak \<le> \<bar>mem s1 F (GridToIdx cfg_peak (fst (4, 2)) (snd (4, 2) + 1))
        - mem s1 F (GridToIdx cfg_peak (fst (4, 2)) (snd (4, 2) - 1))\<bar> / (2 * H1 cfg_peak)"
      by (simp add: peak_idx peak_fields v)
  qed (simp add: peak_fields)
  have m39: "TAMask s1 39" unfolding sf(2) using c(2) n43 by (force simp: peak_idx)
  have m38: "TAMask s1 38" unfolding sf(2) using c(3) n42 by (force simp: peak_idx)
  have m40: "\<not> TAMask s1 40"
  proof
    assume "TAMask s1 40"
    then obtain c' where c': "c' \<in> set (interior_cells cfg_peak)" "idx cfg_peak c' = 40"
      "\<not> below_thresholds cfg_peak (mem s1 F) c'" unfolding sf(2) by blast
    have "idx cfg_peak c' = idx cfg_peak (4, 4)" using c'(2) by (simp add: peak_idx)
    then have "c' = (4, 4)" using peak_distinct c'(1) c(1) by (meson distinct_map inj_on_def)
    then show False using c'(3) b44 by simp
  qed
  have p39: "mem s1 PF 39 = u * q1" and ts: "ta_size s1 \<noteq> 0"
    using sf(3) [OF c(2) n43] by (simp_all add: peak_idx v)
  have bd: "is_boundary cfg_peak (TAMask s1) (4, 3)"
    using m39 m40 by (simp add: is_boundary_def peak_idx)
  text \<open>The state at the first time step.\<close>
  define s0 where "s0 = init_finish cfg_peak s1"
  have s0: "s0 = init_moments cfg_peak (init_ring cfg_peak s1)"
    using ts by (simp add: s0_def init_finish_def peak_fields)
  have e0: "Evolve cfg_peak 0 = Inr s0" by (simp add: Evolve_def Evolve_init_def i s0_def)
  have F0: "mem s0 F k = (if k \<in> idx cfg_peak ` set (interior_cells cfg_peak) \<and> \<not> TAMask s1 k then 0
                          else mem s1 F k)" for k
    by (simp add: s0 init_moments_frame init_ring_facts(1))
  have P0: "mem s0 PF = mem s1 PF" by (simp add: s0 init_moments_PF init_ring_facts(2))
  have T0: "TB s0 = TB (init_ring cfg_peak s1)" by (simp add: s0 init_moments_frame)
  have i40: "40 \<in> idx cfg_peak ` set (interior_cells cfg_peak)"
    using c(1) by (force simp: peak_idx)
  have f40: "mem s0 F 40 = 0" using i40 m40 by (simp add: F0)
  have f39: "mem s0 F 39 = u * q1" using m39 by (simp add: F0 v)
  have f38: "mem s0 F 38 = u * q4" using m38 by (simp add: F0 v)
  have fo: "mem s0 F 31 = 0 \<or> mem s0 F 31 = u * q1" "mem s0 F 49 = 0 \<or> mem s0 F 49 = u * q1"
    "mem s0 F 41 = 0 \<or> mem s0 F 41 = u * q1" "mem s0 F 22 = 0 \<or> mem s0 F 22 = u * q4"
    "mem s0 F 58 = 0 \<or> mem s0 F 58 = u * q4" "mem s0 F 42 = 0 \<or> mem s0 F 42 = u * q4"
    by (simp_all add: F0 v)
  have t39: "39 \<in> set (TB s0)"
    using init_ring_facts(3) [OF c(2) bd] by (simp add: T0 peak_idx)
  have t40: "40 \<notin> set (TB s0)" using init_ring_facts(4) [of 40 cfg_peak s1] m40 by (auto simp: T0)
  text \<open>The frontier and the targets of the first pass.\<close>
  define h where "h = step_head cfg_peak s0"
  have hm: "mem h = mem s0" by (simp add: h_def step_head_frame)
  have hT: "TBL h = filter (leaking cfg_peak (s0\<lparr>Excount := 0\<rparr>)) (TB s0)"
    by (simp add: h_def step_head_def Let_def build_TBL_def peak_fields)
  have hE: "Excount h = 0" by (simp add: h_def step_head_def Let_def build_TBL_def)
  have lk: "leaking cfg_peak (s0\<lparr>Excount := 0\<rparr>) 39"
    using a2 by (simp add: leaking_def Let_def peak_fields sdiv_9 peak_idx P0 p39)
  have h39: "39 \<in> set (TBL h)" using t39 lk by (simp add: hT)
  have h40: "40 \<notin> set (TBL h)" using t40 by (simp add: hT)
  have lc: "loop_cond cfg_peak h" using h39 by (auto simp: loop_cond_def peak_fields hE)
  define ps where "ps = pass_start cfg_peak h"
  have pm: "mem ps F = mem s0 F" by (simp add: ps_def pass_start_def hm)
  have pT: "set (TBL ps) = set (TBL h)" by (simp add: ps_def pass_start_def set_sort_unique)
  have "40 \<in> set (targets_of cfg_peak (mem s0 F) 39)"
    by (simp add: targets_of_def Let_def peak_fields sdiv_9 peak_idx f40)
  then have x40: "40 \<in> set (ExFF ps)"
    using h39 by (auto simp: ps_def pass_start_def ExFF_targets_def set_sort_unique hm)
  have e40: "40 \<in> set (ex_list ps)" using x40 h40 pT by (intro ex_list_mem) simp_all
  text \<open>The extrapolation at the centre.\<close>
  define ds where "ds = dirs_of cfg_peak (mem s0 F) 40"
  have ds: "ds = [(mem s0 F 31, mem s0 F 22, 0), (mem s0 F 49, mem s0 F 58, 0),
                  (u * q1, u * q4, 1), (mem s0 F 41, mem s0 F 42, 1)]"
    by (simp add: ds_def dirs_of_def Let_def peak_fields sdiv_9 peak_idx f39 f38)
  have up: "0 < u" using ub by simp
  have pa: "0 < u * q1" using a2 by simp
  have pb: "0 < u * q4" using up qb by simp
  have un: "(fst t = 0 \<or> fst t = u * q1) \<and> (fst (snd t) = 0 \<or> fst (snd t) = u * q4)"
    if "t \<in> set ds" for t
    using that fo unfolding ds by auto
  note cu = candidates_uniform [OF peak_fields(14,15) pa pb un]
  have "(u * q1, u * q4, 1) \<in> set ds" by (simp add: ds)
  then have fm: "(u * q1, u * q4, 1) \<in> set (formed ds)"
    unfolding formed_def using pa pb by auto
  then have ln: "0 < length (formed ds)" by (auto simp: length_greater_0_conv)
  have cn: "candidates cfg_peak ds \<noteq> []" using ln by (simp add: cu(1))
  have big: "list_all (\<lambda>t. real_of_int BIG_NUMBER \<le> \<bar>fst t\<bar>) (formed ds)"
    using cu(2) a2 by (auto simp: list_all_iff BIG_NUMBER_def)
  have av: "sum_list (candidates cfg_peak ds) / real (length (candidates cfg_peak ds)) = (u * q1)\<^sup>2 / (u * q4)"
    using ln by (simp add: cu(1) sum_list_replicate)
  have "(u * q1)\<^sup>2 / (u * q4) = u * (q1 * q1 / q4)" using up by (simp add: power2_eq_square)
  moreover have "40000000000 * (1 / 4) \<le> u * (q1 * q1 / q4)"
  proof (intro mult_mono)
    have x: "1 / 2 * (1 / 2) \<le> q1 * q1" using qb by (intro mult_mono) simp_all
    have "q4 \<le> 1" using qb by simp
    then have "(q1 * q1) / 1 \<le> (q1 * q1) / q4" using qb by (intro divide_left_mono) simp_all
    then show "1 / 4 \<le> q1 * q1 / q4" using x by linarith
  qed (use ub in simp_all)
  ultimately have "10000000000 \<le> (u * q1)\<^sup>2 / (u * q4)" by simp
  then have "real_of_int BIG_NUMBER < \<bar>(u * q1)\<^sup>2 / (u * q4)\<bar>"
    unfolding BIG_NUMBER_def by linarith
  then have ab: "\<bar>sum_list (candidates cfg_peak ds) / real (length (candidates cfg_peak ds))\<bar>
                        > real_of_int BIG_NUMBER"
    unfolding av .
  have xt: "extrap_target cfg_peak (mem s0 F) 40 = Inl OutOfRangeRead"
    by (rule extrap_target_sentinel) (use cn big ab in \<open>simp_all add: ds_def\<close>)
  text \<open>The pass, the loop and the step.\<close>
  have "extrapolate cfg_peak ps = Inl OutOfRangeRead"
    by (rule extrapolate_fault [OF x40]) (use h40 pT xt in \<open>simp_all add: pm\<close>)
  then have "ex_pass cfg_peak h = Inl OutOfRangeRead" by (simp add: ex_pass_unfold ps_def)
  then have "ex_loop cfg_peak h = Inl OutOfRangeRead" using lc by (simp add: ex_loop.simps [of cfg_peak h])
  then have "step cfg_peak s0 = Inl OutOfRangeRead" by (simp add: step_def h_def)
  then have e1: "Evolve cfg_peak 1 = Inl OutOfRangeRead"
    by (simp add: Evolve_def Evolve_init_def i s0_def)
  show ?thesis
    unfolding e0 e1 using f40 e40 cn big ab xt by (simp add: h_def ps_def ds_def)
qed

section \<open>Termination of the extrapolation loop\<close>

text \<open>
  Claim C6 (as amended). The extrapolation loop of a time step terminates. From the start
  of a step it returns after at most \<open>ExLimit\<close> passes, or after two passes when that is more:
  a first pass that ends with an empty target list neither counts nor clears the frontier,
  and the pass that follows it has no target either and clears \<open>TBL\<close>. From a state after the
  first pass it returns after at most \<open>ExLimit - Excount\<close> passes. On return the frontier
  \<open>TBL\<close> is empty or \<open>Excount\<close> has reached \<open>ExLimit\<close> (or the grid is full), and \<open>Excount\<close> has
  not passed the larger of its initial value and \<open>ExLimit\<close>. A pass adds one to \<open>Excount\<close>
  exactly when its target list is not empty, and then clears \<open>TBL\<close> when \<open>Excount\<close> reaches
  \<open>ExLimit\<close>.
\<close>

theorem ex_loop_terminates:
  "ex_loop_fuel (if isFirstExtrp s then max 2 (nat (ExLimit cfg - Excount s))
                 else nat (ExLimit cfg - Excount s)) cfg s
     = Some (ex_loop cfg s)
   \<and> (\<forall>s'. ex_loop cfg s = Inr s' \<longrightarrow>
         (TBL s' = [] \<or> isFullGrid cfg \<or> ExLimit cfg \<le> Excount s')
         \<and> Excount s' \<le> max (Excount s) (ExLimit cfg))
   \<and> (\<forall>s'. ex_pass cfg s = Inr s' \<longrightarrow>
         Excount s' = Excount s + (if ExFF s' \<noteq> [] then 1 else 0)
         \<and> (ExFF s' \<noteq> [] \<and> Excount s' = ExLimit cfg \<longrightarrow> TBL s' = []))
   \<and> (\<forall>s1. isFirstExtrp s \<and> ex_pass cfg s = Inr s1 \<and> ExFF s1 = [] \<longrightarrow>
         (\<exists>s2. ex_pass cfg s1 = Inr s2 \<and> ExFF s2 = [] \<and> TBL s2 = []))"
proof -
  have one: "ex_loop_fuel (if isFirstExtrp s then max 2 (nat (ExLimit cfg - Excount s))
                 else nat (ExLimit cfg - Excount s)) cfg s = Some (ex_loop cfg s)"
    by (rule ex_loop_fuel_tight)
  have two: "(TBL s' = [] \<or> isFullGrid cfg \<or> ExLimit cfg \<le> Excount s')
         \<and> Excount s' \<le> max (Excount s) (ExLimit cfg)" if "ex_loop cfg s = Inr s'" for s'
    using ex_loop_exit [OF that] ex_loop_Excount [OF that] by (auto simp: loop_cond_def)
  have three: "Excount s' = Excount s + (if ExFF s' \<noteq> [] then 1 else 0)
         \<and> (ExFF s' \<noteq> [] \<and> Excount s' = ExLimit cfg \<longrightarrow> TBL s' = [])" if "ex_pass cfg s = Inr s'" for s'
    using ex_pass_cases(2,3) [OF that] by blast
  have four: "\<exists>s2. ex_pass cfg s1 = Inr s2 \<and> ExFF s2 = [] \<and> TBL s2 = []"
    if a: "isFirstExtrp s \<and> ex_pass cfg s = Inr s1 \<and> ExFF s1 = []" for s1
  proof -
    from a have f: "isFirstExtrp s" and p: "ex_pass cfg s = Inr s1" and x: "ExFF s1 = []" by simp_all
    from ex_pass_unproductive_first [OF f p x] obtain s2 where
      s2: "ex_pass cfg s1 = Inr s2" "ExFF s2 = []" by blast
    have "TBL s2 = []" using ex_pass_cases(4) [OF s2] ex_pass_cases(1) [OF p] by simp
    then show ?thesis using s2 by blast
  qed
  show ?thesis using one two three four by blast
qed

theorem ex_loop_terminates_witness:
  "ExLimit cfg_small = 1 \<and> Excount state_edge = 0 \<and> isFirstExtrp state_edge
   \<and> ex_loop_fuel 2 cfg_small state_edge = Some (ex_loop cfg_small state_edge)
   \<and> (\<exists>s'. ex_loop cfg_small state_edge = Inr s' \<and> TBL s' = [] \<and> Excount s' = 0)
   \<and> (\<exists>s'. ex_pass cfg_small state_edge = Inr s' \<and> ExFF s' = [] \<and> Excount s' = 0)"
proof -
  have a: "ExLimit cfg_small = 1" "Excount state_edge = 0" "isFirstExtrp state_edge"
    "TBL state_edge = [24]" "\<not> isFullGrid cfg_small"
    by (simp_all add: cfg_small_def state_edge_def state_one_cell_def state_zero_def)
  note t = ex_loop_terminates [where cfg = cfg_small and s = state_edge]
  obtain s1 where s1: "ex_pass cfg_small state_edge = Inr s1" "ExFF s1 = []"
    using ex_pass_edge [OF a(4)] by blast
  have c1: "Excount s1 = 0" using t s1 a by simp
  note k1 = ex_pass_cases [OF s1(1)]
  have b1: "TBL s1 = [24]" using k1(5) s1(2) a by (simp add: sort_unique_def)
  obtain s2 where s2: "ex_pass cfg_small s1 = Inr s2" "ExFF s2 = []"
    using ex_pass_edge [OF b1] by blast
  note k2 = ex_pass_cases [OF s2(1)]
  have b2: "TBL s2 = []" using k2(4) s2(2) k1(1) by simp
  have c2: "Excount s2 = 0" using k2(2) s2(2) c1 by simp
  have l2: "ex_loop cfg_small s2 = Inr s2" using b2 by (simp add: ex_loop.simps loop_cond_def)
  have l1: "ex_loop cfg_small s1 = Inr s2"
    using b1 c1 a s2(1) l2 by (simp add: ex_loop.simps [of cfg_small s1] loop_cond_def)
  have l0: "ex_loop cfg_small state_edge = Inr s2"
    using a s1(1) l1 by (simp add: ex_loop.simps [of cfg_small state_edge] loop_cond_def)
  have f: "ex_loop_fuel 2 cfg_small state_edge = Some (ex_loop cfg_small state_edge)"
    using t a by (simp add: numeral_2_eq_2)
  show ?thesis using a f l0 b2 c2 s1 c1 by simp
qed

text \<open>
  The claim as it was stated bounds the number of passes by \<open>ExLimit\<close>. A first pass without
  targets neither counts nor clears the frontier, so the loop runs a second pass: with
  \<open>ExLimit = 1\<close> one pass is not enough, two are.
\<close>

theorem ex_loop_extra_pass_counterexample:
  "ExLimit cfg_small = 1 \<and> Excount state_edge = 0
   \<and> ex_loop_fuel (nat (ExLimit cfg_small)) cfg_small state_edge = None
   \<and> ex_loop_fuel (nat (ExLimit cfg_small) + 1) cfg_small state_edge = Some (ex_loop cfg_small state_edge)
   \<and> \<not> isl (ex_loop cfg_small state_edge)"
proof -
  have a: "ExLimit cfg_small = 1" "Excount state_edge = 0" "isFirstExtrp state_edge"
    "TBL state_edge = [24]" "\<not> isFullGrid cfg_small"
    by (simp_all add: cfg_small_def state_edge_def state_one_cell_def state_zero_def)
  obtain s1 where s1: "ex_pass cfg_small state_edge = Inr s1" "ExFF s1 = []"
    using ex_pass_edge [OF a(4)] by blast
  note k1 = ex_pass_cases [OF s1(1)]
  have c1: "Excount s1 = 0" using k1(2) s1(2) a by simp
  have b1: "TBL s1 = [24]" using k1(5) s1(2) a by (simp add: sort_unique_def)
  obtain s2 where s2: "ex_pass cfg_small s1 = Inr s2" "ExFF s2 = []"
    using ex_pass_edge [OF b1] by blast
  note k2 = ex_pass_cases [OF s2(1)]
  have b2: "TBL s2 = []" using k2(4) s2(2) k1(1) by simp
  have n: "ex_loop_fuel (Suc 0) cfg_small state_edge = None"
    using a s1(1) b1 c1 by (simp add: loop_cond_def)
  have m: "ex_loop_fuel (Suc (Suc 0)) cfg_small state_edge = Some (Inr s2)"
    using a s1(1) b1 c1 s2(1) b2 by (simp add: loop_cond_def)
  have l2: "ex_loop cfg_small s2 = Inr s2" using b2 by (simp add: ex_loop.simps loop_cond_def)
  have l1: "ex_loop cfg_small s1 = Inr s2"
    using b1 c1 a s2(1) l2 by (simp add: ex_loop.simps [of cfg_small s1] loop_cond_def)
  have l0: "ex_loop cfg_small state_edge = Inr s2"
    using a s1(1) l1 by (simp add: ex_loop.simps [of cfg_small state_edge] loop_cond_def)
  show ?thesis using a n m by (simp add: l0)
qed

section \<open>The cells of the frontier are interior cells\<close>

text \<open>
  Claim C7. Every index in the frontier \<open>TBL\<close> as built from the boundary ring \<open>TB\<close> before
  the Runge-Kutta update decodes to coordinates \<open>(i, j)\<close> with \<open>i > E\<close>, \<open>j > E\<close>,
  \<open>i < N\<^sub>x - E - 1\<close> and \<open>j < N\<^sub>p - E - 1\<close>. With an edge width \<open>E \<ge> 0\<close> the same holds for the
  frontier at the head of the extrapolation loop after any number of passes (the rebuild
  from \<open>FF\<close> tests \<open>j > E\<close> twice and \<open>i > E\<close> not at all, but the targets it filters are
  neighbours of frontier cells that passed the test on \<open>i\<close>), and for every target of such
  a frontier; and with \<open>E \<ge> 1\<close> the eight cells the extrapolation reads around a target, one and
  two cells back in each direction, are cells of the grid.
\<close>

theorem frontier_in_interior:
  "list_all (strict_interior cfg) (TBL (build_TBL cfg s0))
   \<and> (0 \<le> EDGE cfg \<and> loop_reach cfg (build_TBL cfg s0) s \<longrightarrow>
        list_all (strict_interior cfg) (TBL s)
        \<and> (\<forall>k \<in> set (ExFF (pass_start cfg s)).
              strict_interior cfg k
              \<and> (1 \<le> EDGE cfg \<longrightarrow> list_all (in_grid cfg) (extrap_reads cfg k))))"
proof -
  have two: "list_all (strict_interior cfg) (TBL s)
        \<and> (\<forall>k \<in> set (ExFF (pass_start cfg s)).
              strict_interior cfg k
              \<and> (1 \<le> EDGE cfg \<longrightarrow> list_all (in_grid cfg) (extrap_reads cfg k)))"
    if e: "0 \<le> EDGE cfg" and r: "loop_reach cfg (build_TBL cfg s0) s"
  proof -
    have i: "list_all (strict_interior cfg) (TBL s)" by (rule loop_reach_interior [OF e r])
    then have su: "list_all (strict_interior cfg) (sort_unique (TBL s))"
      by (simp add: list_all_iff set_sort_unique)
    have "strict_interior cfg k" if "k \<in> set (ExFF (pass_start cfg s))" for k
      using that ExFF_targets_interior [OF e su] by (simp add: pass_start_def)
    then show ?thesis using i extrap_reads_in_grid by blast
  qed
  show ?thesis using build_TBL_interior two by blast
qed

theorem frontier_in_interior_witness:
  "0 \<le> EDGE cfg_fine \<and> 1 \<le> EDGE cfg_fine
   \<and> loop_reach cfg_fine (build_TBL cfg_fine state_tail) (build_TBL cfg_fine state_tail)
   \<and> TBL (build_TBL cfg_fine state_tail) = [31, 40]
   \<and> list_all (strict_interior cfg_fine) [31, 40]
   \<and> 49 \<in> set (ExFF (pass_start cfg_fine (build_TBL cfg_fine state_tail)))
   \<and> strict_interior cfg_fine 49
   \<and> list_all (in_grid cfg_fine) (extrap_reads cfg_fine 49)
   \<and> (\<exists>s1. ex_pass cfg_small (build_TBL cfg_small state_edge) = Inr s1
          \<and> loop_reach cfg_small (build_TBL cfg_small state_edge) s1
          \<and> TBL s1 = [24] \<and> list_all (strict_interior cfg_small) [24])"
proof -
  let ?s = "build_TBL cfg_fine state_tail"
  have e: "0 \<le> EDGE cfg_fine" "1 \<le> EDGE cfg_fine" by (simp_all add: cfg_fine_def cfg_small_def)
  have r: "loop_reach cfg_fine ?s ?s" by (rule loop_reach.start)
  have m: "mem ?s F 49 = 0" by (simp add: build_TBL_def Let_def state_tail_def)
  have x: "49 \<in> set (ExFF (pass_start cfg_fine ?s))"
    unfolding pass_start_def build_TBL_tail
    by (simp add: sort_unique_def ExFF_targets_def targets_of_def Let_def M1_fine sdiv_9 sdiv_31_9
        GridToIdx_def m)
       (simp add: cfg_fine_def cfg_small_def)
  note t = frontier_in_interior [of cfg_fine state_tail ?s]
  have a: "list_all (strict_interior cfg_fine) [31, 40]" using t e r by (simp add: build_TBL_tail)
  have b: "strict_interior cfg_fine 49 \<and> list_all (in_grid cfg_fine) (extrap_reads cfg_fine 49)"
    using t e r x by blast
  let ?u = "build_TBL cfg_small state_edge"
  have e': "0 \<le> EDGE cfg_small" "ExLimit cfg_small = 1" "\<not> isFullGrid cfg_small"
    by (simp_all add: cfg_small_def)
  have i: "Excount ?u = 0" "isFirstExtrp ?u"
    by (simp_all add: build_TBL_def Let_def state_edge_def state_one_cell_def state_zero_def)
  obtain s1 where s1: "ex_pass cfg_small ?u = Inr s1" "ExFF s1 = []"
    using ex_pass_edge [OF build_TBL_edge] by blast
  have c: "loop_cond cfg_small ?u" using e' i by (simp add: loop_cond_def build_TBL_edge)
  have r1: "loop_reach cfg_small ?u s1" by (rule loop_reach.pass [OF loop_reach.start c s1(1)])
  have b1: "TBL s1 = [24]"
    using ex_pass_cases(5) [OF s1(1) s1(2) i(2)] by (simp add: sort_unique_def build_TBL_edge)
  have "list_all (strict_interior cfg_small) (TBL s1)"
    using frontier_in_interior [of cfg_small state_edge s1] e' r1 by blast
  then have d: "list_all (strict_interior cfg_small) [24]" by (simp add: b1)
  show ?thesis using e r build_TBL_tail a x b s1(1) r1 b1 d by blast
qed

section \<open>A normalization factor that is not positive\<close>

text \<open>
  Claim C8 (as amended). The program has no test on the normalization factor
  \<open>Z = h\<^sub>x h\<^sub>p \<Sum> FF\<close>. When \<open>Z\<close> is negative the normalization succeeds: \<open>F\<close>, \<open>FF\<close> and
  \<open>PF\<close> become the old \<open>FF\<close> divided by \<open>Z\<close> on the update region (whose column indices are
  assumed within a row), and the step goes on with the truncation.
\<close>

theorem negative_norm_not_fatal:
  "norm_factor cfg s < 0 \<and> region_in_rows cfg s \<longrightarrow>
     (\<exists>s'. normalize cfg s = Inr s'
          \<and> finish_step cfg s = Inr (if \<not> isFullGrid cfg then truncate_step cfg s' else s')
          \<and> list_all (\<lambda>c. mem s' F (idx cfg c) = mem s FF (idx cfg c) / norm_factor cfg s
                         \<and> mem s' FF (idx cfg c) = mem s FF (idx cfg c) / norm_factor cfg s
                         \<and> mem s' PF (idx cfg c) = mem s FF (idx cfg c) / norm_factor cfg s)
               (update_region cfg s))"
proof
  assume a: "norm_factor cfg s < 0 \<and> region_in_rows cfg s"
  define cs where "cs = update_region cfg s"
  define Zv where "Zv = norm_factor cfg s"
  define s' where "s' = s\<lparr>mem := fold (scale_cell cfg (1 / Zv)) cs (mem s)\<rparr>"
  have Z: "Zv \<noteq> 0" using a by (simp add: Zv_def)
  have "norm_sum cfg [] (mem s FF) = 0" by (simp add: norm_sum_def)
  then have ne: "cs \<noteq> []" using Z by (auto simp: norm_factor_def cs_def Zv_def)
  have n: "normalize cfg s = Inr s'"
    using Z ne by (simp add: normalize_def Let_def cs_def Zv_def s'_def)
  have d: "distinct (map (idx cfg) cs)"
    unfolding cs_def using a by (intro distinct_update_region) simp
  have v: "mem s' b (idx cfg c) = mem s FF (idx cfg c) / Zv" if "c \<in> set cs" "b \<in> {FF, F, PF}" for c b
    using fold_scale_on [OF d that, of "1 / Zv" "mem s"] by (simp add: s'_def)
  have "list_all (\<lambda>c. mem s' F (idx cfg c) = mem s FF (idx cfg c) / Zv
                         \<and> mem s' FF (idx cfg c) = mem s FF (idx cfg c) / Zv
                         \<and> mem s' PF (idx cfg c) = mem s FF (idx cfg c) / Zv) cs"
    by (simp add: list_all_iff v)
  moreover have "finish_step cfg s = Inr (if \<not> isFullGrid cfg then truncate_step cfg s' else s')"
    by (simp add: finish_step_def n)
  ultimately show "\<exists>s'. normalize cfg s = Inr s'
          \<and> finish_step cfg s = Inr (if \<not> isFullGrid cfg then truncate_step cfg s' else s')
          \<and> list_all (\<lambda>c. mem s' F (idx cfg c) = mem s FF (idx cfg c) / norm_factor cfg s
                         \<and> mem s' FF (idx cfg c) = mem s FF (idx cfg c) / norm_factor cfg s
                         \<and> mem s' PF (idx cfg c) = mem s FF (idx cfg c) / norm_factor cfg s)
               (update_region cfg s)"
    using n unfolding cs_def Zv_def by blast
qed

theorem negative_norm_not_fatal_witness:
  "norm_factor cfg_small state_neg < 0 \<and> region_in_rows cfg_small state_neg
   \<and> \<not> isl (normalize cfg_small state_neg)
   \<and> \<not> isl (finish_step cfg_small state_neg)
   \<and> mem state_neg FF 24 = - 1
   \<and> mem (projr (normalize cfg_small state_neg)) F 24 = 1"
proof -
  have z: "norm_factor cfg_small state_neg < 0" by (simp add: norm_factor_neg)
  have r: "region_in_rows cfg_small state_neg"
    by (simp add: region_in_rows_def cfg_small_def state_neg_def state_one_cell_def)
  have k: "idx cfg_small (3, 3) = 24" by (simp add: idx_def GridToIdx_def W1_def cfg_small_def)
  have u: "update_region cfg_small state_neg = [(3, 3)]"
    by (simp add: update_region_def live_cells_neg) (simp add: cfg_small_def)
  have m: "mem state_neg FF 24 = - 1" by (simp add: state_neg_def)
  from negative_norm_not_fatal [of cfg_small state_neg] z r
  obtain s' where s': "normalize cfg_small state_neg = Inr s'"
    "finish_step cfg_small state_neg = Inr (if \<not> isFullGrid cfg_small then truncate_step cfg_small s' else s')"
    "list_all (\<lambda>c. mem s' F (idx cfg_small c) = mem state_neg FF (idx cfg_small c) / norm_factor cfg_small state_neg
                         \<and> mem s' FF (idx cfg_small c) = mem state_neg FF (idx cfg_small c) / norm_factor cfg_small state_neg
                         \<and> mem s' PF (idx cfg_small c) = mem state_neg FF (idx cfg_small c) / norm_factor cfg_small state_neg)
               (update_region cfg_small state_neg)"
    by blast
  have "mem s' F 24 = 1" using s'(3) by (simp add: u k m norm_factor_neg)
  then show ?thesis using z r m by (simp add: s'(1,2))
qed

text \<open>
  The claim as it was stated makes the run stop when \<open>Z \<le> 0\<close>. With one live cell holding
  \<open>FF = -1\<close> the factor is \<open>-1\<close>; the normalization returns the state with the field
  multiplied by \<open>1 / Z = -1\<close>, and the rest of the step returns as well.
\<close>

theorem negative_norm_counterexample:
  "norm_factor cfg_small state_neg = - 1
   \<and> normalize cfg_small state_neg
       = Inr (state_neg\<lparr>mem := scale_cell cfg_small (- 1) (3, 3) (mem state_neg)\<rparr>)
   \<and> finish_step cfg_small state_neg
       = Inr (truncate_step cfg_small (state_neg\<lparr>mem := scale_cell cfg_small (- 1) (3, 3) (mem state_neg)\<rparr>))
   \<and> scale_cell cfg_small (- 1) (3, 3) (mem state_neg) F 24 = 1"
proof -
  have u: "update_region cfg_small state_neg = [(3, 3)]"
    by (simp add: update_region_def live_cells_neg) (simp add: cfg_small_def)
  have n: "normalize cfg_small state_neg
       = Inr (state_neg\<lparr>mem := scale_cell cfg_small (- 1) (3, 3) (mem state_neg)\<rparr>)"
    by (simp add: normalize_def Let_def u norm_factor_neg)
  have f: "finish_step cfg_small state_neg
       = Inr (truncate_step cfg_small (state_neg\<lparr>mem := scale_cell cfg_small (- 1) (3, 3) (mem state_neg)\<rparr>))"
    by (simp add: finish_step_def n) (simp add: cfg_small_def)
  have v: "scale_cell cfg_small (- 1) (3, 3) (mem state_neg) F 24 = 1"
    by (simp add: scale_cell_apply idx_def GridToIdx_def W1_def cfg_small_def state_neg_def)
  show ?thesis using norm_factor_neg n f v by simp
qed

section \<open>Sanitization of the local Maxwellian\<close>

text \<open>
  Claim C9. On each path that writes \<^verbatim>\<open>Feq_loc\<close> (the row loops of the truncated grid,
  used by the first extrapolation pass and by the step without extrapolation; the row loops
  of the full grid; the refresh over \<^verbatim>\<open>ExBD\<close>), in a row whose density is positive, the
  value stored at a cell is 0 when the Maxwellian computed from the row's moments is not
  finite or exceeds \<open>1 / (h\<^sub>x h\<^sub>p)\<close>, and is the computed value otherwise. The row's moments
  \<open>moments_row\<close> are those of the collision mode in force, so this covers the three modes.
\<close>

theorem feq_sanitized_on_every_path:
  fixes cfg :: config and st :: store and msk :: "int \<Rightarrow> bool" and a b c d i j k :: int
    and ks :: "int list"
  defines "mt \<equiv> moments_row cfg st i (live_cols cfg msk c d i)"
    and "mf \<equiv> moments_row cfg st i [0..BoxShape1 cfg - 1]"
    and "g1 \<equiv> k sdiv M1 cfg"
  defines "clip \<equiv> (\<lambda>v. case v of None \<Rightarrow> 0 | Some x \<Rightarrow> if x > 1 / (H0 cfg * H1 cfg) then 0 else x)"
  shows "(a \<le> i \<and> i \<le> b \<and> 0 \<le> c \<and> d < BoxShape1 cfg \<and> j \<in> set (live_cols cfg msk c d i) \<and> 0 < fst mt \<longrightarrow>
            moments_feq_trunc cfg msk a b c d st Feq_loc (GridToIdx cfg i j)
              = clip (feq_val cfg (fst mt) (fst (snd mt)) (snd (snd mt)) j))
       \<and> (0 \<le> i \<and> i < BoxShape0 cfg \<and> 0 \<le> j \<and> j < BoxShape1 cfg \<and> 0 < fst mf \<longrightarrow>
            moments_feq_full cfg st Feq_loc (GridToIdx cfg i j)
              = clip (feq_val cfg (fst mf) (fst (snd mf)) (snd (snd mf)) j))
       \<and> (k \<in> set ks \<and> 0 < st Density g1 \<longrightarrow>
            feq_ExBD cfg ks st Feq_loc k
              = clip (feq_val cfg (st Density g1) (st Velocity g1) (st Temperature g1) (k smod M1 cfg)))"
proof (intro conjI impI)
  assume h: "a \<le> i \<and> i \<le> b \<and> 0 \<le> c \<and> d < BoxShape1 cfg \<and> j \<in> set (live_cols cfg msk c d i) \<and> 0 < fst mt"
  then have "moments_feq_trunc cfg msk a b c d st Feq_loc (GridToIdx cfg i j) = feq_cell cfg mt j"
    unfolding mt_def by (intro moments_feq_trunc_cell) simp_all
  then show "moments_feq_trunc cfg msk a b c d st Feq_loc (GridToIdx cfg i j)
              = clip (feq_val cfg (fst mt) (fst (snd mt)) (snd (snd mt)) j)"
    using h by (simp add: feq_cell_def sanitize_clip clip_def)
next
  assume h: "0 \<le> i \<and> i < BoxShape0 cfg \<and> 0 \<le> j \<and> j < BoxShape1 cfg \<and> 0 < fst mf"
  then have "moments_feq_full cfg st Feq_loc (GridToIdx cfg i j) = feq_cell cfg mf j"
    unfolding mf_def by (intro moments_feq_full_cell) simp_all
  then show "moments_feq_full cfg st Feq_loc (GridToIdx cfg i j)
              = clip (feq_val cfg (fst mf) (fst (snd mf)) (snd (snd mf)) j)"
    using h by (simp add: feq_cell_def sanitize_clip clip_def)
next
  assume h: "k \<in> set ks \<and> 0 < st Density g1"
  then have "feq_ExBD cfg ks st Feq_loc k = feq_stored cfg st k"
    by (intro feq_ExBD_cell_stored) simp
  then show "feq_ExBD cfg ks st Feq_loc k
              = clip (feq_val cfg (st Density g1) (st Velocity g1) (st Temperature g1) (k smod M1 cfg))"
    using h by (simp add: feq_stored_def g1_def sanitize_clip clip_def)
qed

theorem feq_sanitized_on_every_path_witness:
  "(2::int) \<le> 3 \<and> (3::int) \<le> 4 \<and> (0::int) \<le> 2 \<and> 4 < BoxShape1 cfg_small
   \<and> 3 \<in> set (live_cols cfg_small (\<lambda>k. k = 24) 2 4 3)
   \<and> 0 < fst (moments_row cfg_small (mem state_one_cell) 3 (live_cols cfg_small (\<lambda>k. k = 24) 2 4 3))
   \<and> feq_val cfg_small 1 0 0 3 = None
   \<and> moments_feq_trunc cfg_small (\<lambda>k. k = 24) 2 4 2 4 (mem state_one_cell) Feq_loc (GridToIdx cfg_small 3 3) = 0"
proof -
  have l: "live_cols cfg_small (\<lambda>k. k = 24) 2 4 3 = [3]"
    by (simp add: live_cols_def GridToIdx_def W1_def cfg_small_def upto.simps)
  have r: "rho_row cfg_small (mem state_one_cell F) 3 [3] = 1"
    by (simp add: rho_row_def GridToIdx_def W1_def cfg_small_def state_one_cell_def)
  have u: "u_row cfg_small (mem state_one_cell F) 3 [3] = 0"
    by (simp add: u_row_def r) (simp add: cfg_small_def)
  have t: "T_row cfg_small (mem state_one_cell F) 3 [3] = 0"
    by (simp add: T_row_def r u) (simp add: cfg_small_def)
  have m: "moments_row cfg_small (mem state_one_cell) 3 [3] = (1, 0, 0)"
    using moments_row_full_FP [of cfg_small "mem state_one_cell" 3 "[3]"]
    by (simp add: r u t) (simp add: cfg_small_def)
  have f: "feq_val cfg_small 1 0 0 3 = None" by (simp add: feq_val_def)
  show ?thesis
    using feq_sanitized_on_every_path [where cfg = cfg_small and st = "mem state_one_cell"
            and msk = "\<lambda>k. k = 24" and a = 2 and b = 4 and c = 2 and d = 4 and i = 3 and j = 3
            and k = 0 and ks = "[]"]
    by (simp add: l m f) (simp add: cfg_small_def)
qed

section \<open>The mask after the truncation pass\<close>

text \<open>
  Claim C10 (as amended). The pass that recomputes the mask from \<^verbatim>\<open>PF\<close> over the bounding
  box (\<open>update_mask\<close>) leaves, at every cell of the box, the mask entry true exactly when
  the cell's \<^verbatim>\<open>PF\<close> is not zero; it zeroes \<^verbatim>\<open>F\<close> where \<^verbatim>\<open>PF\<close> is zero, leaves \<^verbatim>\<open>F\<close>
  alone elsewhere and does not write \<^verbatim>\<open>PF\<close>. In a run in truncated-grid mode the pass of
  every time step starts from a state in which \<^verbatim>\<open>PF\<close> is zero at every cell outside the
  mask, so that the pass only removes cells from the mask: a cell that is live after the
  pass was live before it.
\<close>

theorem update_mask_iff_PF:
  fixes cfg :: config
  shows "(\<forall>s i j. x1_min s \<le> i \<and> i \<le> x1_max s \<and> x2_min s \<le> j \<and> j \<le> x2_max s \<longrightarrow>
            (TAMask (update_mask cfg s) (GridToIdx cfg i j) \<longleftrightarrow> mem s PF (GridToIdx cfg i j) \<noteq> 0)
          \<and> mem (update_mask cfg s) F (GridToIdx cfg i j)
              = (if mem s PF (GridToIdx cfg i j) = 0 then 0 else mem s F (GridToIdx cfg i j))
          \<and> mem (update_mask cfg s) PF = mem s PF)
       \<and> (\<not> isFullGrid cfg \<longrightarrow>
            (\<forall>n s s1 s2. Evolve cfg n = Inr s \<and> ex_loop cfg (step_head cfg s) = Inr s1
                 \<and> normalize cfg (case_update cfg s1) = Inr s2 \<longrightarrow>
               step cfg s = Inr (expand_TA cfg (build_TB cfg (rebuild_box cfg
                                   (update_mask cfg (prune_PF cfg s2)))))
             \<and> (\<forall>k. \<not> TAMask (prune_PF cfg s2) k \<longrightarrow> mem (prune_PF cfg s2) PF k = 0)
             \<and> (\<forall>k. TAMask (update_mask cfg (prune_PF cfg s2)) k \<longrightarrow> TAMask (prune_PF cfg s2) k)))"
proof (intro conjI allI impI)
  fix s :: state and i j :: int
  assume b: "x1_min s \<le> i \<and> i \<le> x1_max s \<and> x2_min s \<le> j \<and> j \<le> x2_max s"
  define k where "k = GridToIdx cfg i j"
  have "(i, j) \<in> set (box_cells (x1_min s) (x1_max s) (x2_min s) (x2_max s))"
    using b by (simp add: set_box_cells)
  then have m: "k \<in> idx cfg ` set (box_cells (x1_min s) (x1_max s) (x2_min s) (x2_max s))"
    unfolding k_def by (force simp: idx_def)
  note f = fold_mask_cell [of k cfg "box_cells (x1_min s) (x1_max s) (x2_min s) (x2_max s)" s]
  show "TAMask (update_mask cfg s) (GridToIdx cfg i j) \<longleftrightarrow> mem s PF (GridToIdx cfg i j) \<noteq> 0"
    using f m unfolding k_def [symmetric] by (simp add: update_mask_def)
  show "mem (update_mask cfg s) F (GridToIdx cfg i j)
          = (if mem s PF (GridToIdx cfg i j) = 0 then 0 else mem s F (GridToIdx cfg i j))"
    using f m unfolding k_def [symmetric] by (simp add: update_mask_def)
  show "mem (update_mask cfg s) PF = mem s PF" by (simp add: update_mask_def fold_mask_cell_PF)
next
  fix n :: nat and s s1 s2 :: state
  assume t: "\<not> isFullGrid cfg"
    and r: "Evolve cfg n = Inr s \<and> ex_loop cfg (step_head cfg s) = Inr s1
            \<and> normalize cfg (case_update cfg s1) = Inr s2"
  have p: "PF_masked s" using t r by (blast intro: Evolve_PF_masked)
  have l: "ex_loop cfg (step_head cfg s) = Inr s1" and m: "normalize cfg (case_update cfg s1) = Inr s2"
    using r by simp_all
  show "step cfg s = Inr (expand_TA cfg (build_TB cfg (rebuild_box cfg
                            (update_mask cfg (prune_PF cfg s2)))))"
    by (rule step_parts(1) [OF t p l m])
  have q: "PF_masked (prune_PF cfg s2)" by (rule step_parts(2) [OF t p l m])
  {
    fix k assume "\<not> TAMask (prune_PF cfg s2) k"
    then show "mem (prune_PF cfg s2) PF k = 0" using q by (simp add: PF_masked_def)
  }
  {
    fix k assume "TAMask (update_mask cfg (prune_PF cfg s2)) k"
    then show "TAMask (prune_PF cfg s2) k" by (rule update_mask_enters [OF q])
  }
qed

theorem update_mask_iff_PF_witness:
  "\<not> isFullGrid cfg_cell
   \<and> (\<exists>s s1 s2.
        Evolve cfg_cell 2 = Inr s \<and> ex_loop cfg_cell (step_head cfg_cell s) = Inr s1
        \<and> normalize cfg_cell (case_update cfg_cell s1) = Inr s2
        \<and> step cfg_cell s = Inr (expand_TA cfg_cell (build_TB cfg_cell (rebuild_box cfg_cell
                                    (update_mask cfg_cell (prune_PF cfg_cell s2)))))
        \<and> x1_min (prune_PF cfg_cell s2) \<le> 2 \<and> 2 \<le> x1_max (prune_PF cfg_cell s2)
        \<and> x2_min (prune_PF cfg_cell s2) \<le> 2 \<and> 2 \<le> x2_max (prune_PF cfg_cell s2)
        \<and> mem (prune_PF cfg_cell s2) PF (GridToIdx cfg_cell 2 2) = 1
        \<and> TAMask (update_mask cfg_cell (prune_PF cfg_cell s2)) (GridToIdx cfg_cell 2 2)
        \<and> mem (update_mask cfg_cell (prune_PF cfg_cell s2)) F (GridToIdx cfg_cell 2 2) = 1
        \<and> \<not> TAMask (prune_PF cfg_cell s2) 11
        \<and> mem (prune_PF cfg_cell s2) PF 11 = 0
        \<and> \<not> TAMask (update_mask cfg_cell (prune_PF cfg_cell s2)) 11)"
proof -
  let ?s1 = "state_zero\<lparr>mem := st_cell, TAMask := (\<lambda>k. k = 12), ta_size := 1\<rparr>"
  have f: "\<not> isFullGrid cfg_cell" by (simp add: cell_fields)
  have i: "Evolve_init cfg_cell = Inr (init_finish cfg_cell ?s1)" by (simp add: Evolve_init_def init_scan_live)
  have "one_live (init_finish cfg_cell ?s1)"
    using init_ring_live by (simp add: init_finish_def cell_fields one_live_def init_moments_frame)
       (simp add: init_moments_def)
  from steps_cell [OF this, of 2] obtain s where
    s: "steps 2 cfg_cell (init_finish cfg_cell ?s1) = Inr s" "one_live s" by blast
  have e: "Evolve cfg_cell 2 = Inr s" unfolding Evolve_def i using s(1) by simp
  from step_cell_parts [OF s(2)] obtain s1 s2 where
    l: "ex_loop cfg_cell (step_head cfg_cell s) = Inr s1"
    and n: "normalize cfg_cell (case_update cfg_cell s1) = Inr s2"
    and c: "TAMask s2 = (\<lambda>k. k = 12)" "mem s2 F = (\<lambda>k. if k = 12 then 1 else 0)" "mem s2 PF 12 = 1"
      "x1_min s2 = 2" "x1_max s2 = 2" "x2_min s2 = 2" "x2_max s2 = 2"
    by blast
  define p where "p = prune_PF cfg_cell s2"
  have pp: "p = s2"
    by (simp add: p_def prune_PF_def c box_cells_2 prune_cell_def cell_idx cell_fields)
  have g: "GridToIdx cfg_cell 2 2 = 12" using cell_idx [of 2 2] by (simp add: idx_def)
  have b: "x1_min p \<le> 2 \<and> 2 \<le> x1_max p \<and> x2_min p \<le> 2 \<and> 2 \<le> x2_max p" by (simp add: pp c)
  have r: "Evolve cfg_cell 2 = Inr s \<and> ex_loop cfg_cell (step_head cfg_cell s) = Inr s1
           \<and> normalize cfg_cell (case_update cfg_cell s1) = Inr s2"
    using e l n by simp
  note t1 = update_mask_iff_PF [of cfg_cell, THEN conjunct1, rule_format, OF b]
  note t2 = update_mask_iff_PF [of cfg_cell, THEN conjunct2, rule_format, OF f r, folded p_def]
  have a1: "TAMask (update_mask cfg_cell p) (GridToIdx cfg_cell 2 2)"
    and a2: "mem (update_mask cfg_cell p) F (GridToIdx cfg_cell 2 2) = 1"
    using t1 by (simp_all add: g pp c)
  have np: "\<not> TAMask p 11" by (simp add: pp c)
  have st: "step cfg_cell s = Inr (expand_TA cfg_cell (build_TB cfg_cell (rebuild_box cfg_cell
                                    (update_mask cfg_cell p))))"
    using t2 by blast
  have z: "mem p PF 11 = 0" using t2 np by blast
  have nn: "\<not> TAMask (update_mask cfg_cell p) 11" using t2 np by blast
  have pf: "mem p PF (GridToIdx cfg_cell 2 2) = 1" by (simp add: g pp c)
  show ?thesis
    using f e l n st b a1 a2 z nn np pf unfolding p_def by blast
qed

text \<open>
  The claim as it was stated concludes that cells can enter the active set in this pass,
  without the extrapolation or the expansion of the mask. In no run does the pass mark a
  cell that was not live: \<^verbatim>\<open>PF\<close> is written at live cells only (the two normalizations)
  or with the value 0 (the threshold tests), and between two passes the mask only grows, so
  the branch \<^verbatim>\<open>if (!TAMask[..]) TAMask[..] = 1\<close> is never taken.
\<close>

theorem update_mask_reentry_counterexample:
  "\<forall>cfg n s s1 s2 k.
     \<not> (\<not> isFullGrid cfg \<and> Evolve cfg n = Inr s \<and> ex_loop cfg (step_head cfg s) = Inr s1
        \<and> normalize cfg (case_update cfg s1) = Inr s2
        \<and> \<not> TAMask (prune_PF cfg s2) k
        \<and> TAMask (update_mask cfg (prune_PF cfg s2)) k)"
proof (intro allI notI)
  fix cfg n s s1 s2 k
  assume a: "\<not> isFullGrid cfg \<and> Evolve cfg n = Inr s \<and> ex_loop cfg (step_head cfg s) = Inr s1
        \<and> normalize cfg (case_update cfg s1) = Inr s2
        \<and> \<not> TAMask (prune_PF cfg s2) k
        \<and> TAMask (update_mask cfg (prune_PF cfg s2)) k"
  then have p: "PF_masked s" by (blast intro: Evolve_PF_masked)
  have "PF_masked (prune_PF cfg s2)" using a by (blast intro: step_parts(2) [OF _ p])
  then have "TAMask (prune_PF cfg s2) k" using a by (blast intro: update_mask_enters)
  then show False using a by simp
qed

end
